theory Spec2Isabelle
  imports Complex_Main
begin

section \<open>Data model (types.ts, constants.ts)\<close>

text \<open>
  JavaScript numbers are modelled as mathematical reals: every comparison, sum and product
  of the source is the same expression over \<open>real\<close>; rounding, infinities and NaN are outside
  the model.  \<open>Vector2\<close> objects that the frame loop writes through (\<open>pos\<close> and \<open>velocity\<close>)
  live in an explicit store and the entities hold their addresses, because the source copies
  entities shallowly (\<open>{ ...e }\<close>) and so shares these objects.  \<open>size\<close>, \<open>patrolStart\<close>,
  \<open>patrolEnd\<close>, \<open>origin\<close> and \<open>startPos\<close> are never written by the simulation and are held by
  value.  Fields the simulation never reads (\<open>name\<close>, \<open>color\<close>, \<open>isLocked\<close>, \<open>isAlwaysVisible\<close>,
  \<open>patrolRange\<close>, \<open>label\<close>, \<open>description\<close>) are left out.
\<close>

record Vector2 =
  x :: real
  y :: real

datatype EntityType = PLAYER | WALL | DOOR | PLATFORM | ENEMY | PROJECTILE | EXIT | TEXT

datatype Behavior = DEFAULT | PATROL | TURRET

text \<open>
  Entity ids are strings in the source; a projectile's id is the template literal
  \<open>proj_${ent.id}_${now}\<close>, kept here as a constructor of its two parts.
\<close>

datatype EntityId = Named string | Proj EntityId real

text \<open>
  \<open>GameEntity\<close>.  The parameter \<open>'v\<close> is the type of the \<open>velocity\<close> field: an address for a
  live entity, an optional address for a blueprint template (\<open>setupLevel\<close> supplies the
  default).  An absent optional boolean (\<open>isDeadly\<close>) is \<open>False\<close>, as JavaScript's truthiness
  reads it.
\<close>

record 'v GameEntityT =
  idE :: EntityId
  type :: EntityType
  pos :: nat
  sizeE :: Vector2
  velocity :: 'v
  isStatic :: bool
  isSolid :: bool
  isVisible :: bool
  isDeadly :: bool
  gravityScale :: "real option"
  behavior :: "Behavior option"
  origin :: "Vector2 option"
  patrolStart :: "Vector2 option"
  patrolEnd :: "Vector2 option"
  patrolSpeed :: "real option"
  fireRate :: "real option"
  projectileSpeed :: "real option"
  lastFireTime :: "real option"

type_synonym GameEntity = "nat GameEntityT"
type_synonym EntityTemplate = "nat option GameEntityT"

record GlobalPhysics =
  gravity :: real
  friction :: real
  timeScale :: real

record LevelData =
  levelId :: nat
  startPos :: Vector2
  entities :: "EntityTemplate list"
  physics :: GlobalPhysics

definition CANVAS_WIDTH :: real where "CANVAS_WIDTH = 800"
definition CANVAS_HEIGHT :: real where "CANVAS_HEIGHT = 600"
definition PLAYER_SIZE :: Vector2 where "PLAYER_SIZE = \<lparr>x = 32, y = 32\<rparr>"

datatype GameState = MENU | PLAYING | ABOUT | WON | EDITOR

datatype Sfx = SfxShoot | SfxDie | SfxJump | SfxStep | SfxWin | SfxLevelComplete

text \<open>
  The mutable cells shared by \<open>setupLevel\<close> and \<open>gameLoop\<close>: the store of \<open>Vector2\<close> objects
  (\<open>heap\<close>, with \<open>nextRef\<close> the next unused address), \<open>targetXRef\<close>, \<open>lastStepTimeRef\<close>, and the
  sound calls made on the audio engine, in order.
\<close>

record Refs =
  heap :: "nat \<Rightarrow> Vector2"
  nextRef :: nat
  targetXRef :: "real option"
  lastStepTimeRef :: real
  sfx :: "Sfx list"

text \<open>The locals of one run of \<open>gameLoop\<close>, on top of the shared cells.\<close>

record Sim = Refs +
  currentEntities :: "GameEntity list"
  newProjectiles :: "GameEntity list"

text \<open>
  The component state between frames.  \<open>LEVELS\<close> (module \<open>levels\<close>, a non-empty constant
  array) is a parameter: its first element and the rest.
\<close>

record World = Refs +
  entitiesRef :: "GameEntity list"
  physicsRef :: GlobalPhysics
  lastTimeRef :: real
  gameState :: GameState
  isEditorTesting :: bool
  isPaused :: bool
  currentLevelId :: nat
  editorLevel :: LevelData
  LEVELS :: "LevelData \<times> LevelData list"

section \<open>JavaScript helpers\<close>

text \<open>\<open>v || d\<close> on an optional number: \<open>undefined\<close> and \<open>0\<close> are falsy.\<close>

definition orElse :: "real option \<Rightarrow> real \<Rightarrow> real" where
  "orElse v d = (case v of None \<Rightarrow> d | Some r \<Rightarrow> if r = 0 then d else r)"

definition truthy :: "real option \<Rightarrow> bool" where
  "truthy v = (case v of None \<Rightarrow> False | Some r \<Rightarrow> r \<noteq> 0)"

definition Math_atan2 :: "real \<Rightarrow> real \<Rightarrow> real" where
  "Math_atan2 dy dx =
     (if dx > 0 then arctan (dy / dx)
      else if dx < 0 then (if dy \<ge> 0 then arctan (dy / dx) + pi else arctan (dy / dx) - pi)
      else if dy > 0 then pi / 2
      else if dy < 0 then - (pi / 2)
      else 0)"

text \<open>Allocation of a fresh \<open>Vector2\<close> object (an object literal of the source).\<close>

definition alloc :: "Vector2 \<Rightarrow> 'a Refs_scheme \<Rightarrow> nat \<times> 'a Refs_scheme" where
  "alloc v s = (nextRef s, s\<lparr>heap := (heap s)(nextRef s := v), nextRef := Suc (nextRef s)\<rparr>)"

text \<open>Writes through a reference: \<open>o.x = f(o.x)\<close> and \<open>o.y = f(o.y)\<close>.\<close>

definition updX :: "nat \<Rightarrow> (real \<Rightarrow> real) \<Rightarrow> 'a Refs_scheme \<Rightarrow> 'a Refs_scheme" where
  "updX a f s = s\<lparr>heap := (heap s)(a := (heap s a)\<lparr>x := f (x (heap s a))\<rparr>)\<rparr>"

definition updY :: "nat \<Rightarrow> (real \<Rightarrow> real) \<Rightarrow> 'a Refs_scheme \<Rightarrow> 'a Refs_scheme" where
  "updY a f s = s\<lparr>heap := (heap s)(a := (heap s a)\<lparr>y := f (y (heap s a))\<rparr>)\<rparr>"

definition playSfx :: "Sfx \<Rightarrow> 'a Refs_scheme \<Rightarrow> 'a Refs_scheme" where
  "playSfx c s = s\<lparr>sfx := sfx s @ [c]\<rparr>"

section \<open>checkCollision\<close>

definition checkCollision :: "(nat \<Rightarrow> Vector2) \<Rightarrow> GameEntity \<Rightarrow> GameEntity \<Rightarrow> bool" where
  "checkCollision h a b =
     (x (h (pos a)) < x (h (pos b)) + x (sizeE b) \<and>
      x (h (pos a)) + x (sizeE a) > x (h (pos b)) \<and>
      y (h (pos a)) < y (h (pos b)) + y (sizeE b) \<and>
      y (h (pos a)) + y (sizeE a) > y (h (pos b)))"

section \<open>Control flow of a frame\<close>

text \<open>
  \<open>gameLoop\<close> leaves a frame early by \<open>return\<close> in two ways: after \<open>resetLevel()\<close> (death) and
  after the exit was reached.  \<open>Return\<close> carries which one and the shared cells at that moment;
  \<open>Cont\<close> carries the loop state to the next iteration.
\<close>

datatype Outcome = Reset | Complete

datatype 'st Flow = Cont 'st | Return Outcome Sim

fun forOf :: "('a \<Rightarrow> 'st \<Rightarrow> 'st Flow) \<Rightarrow> 'a list \<Rightarrow> 'st \<Rightarrow> 'st Flow" where
  "forOf body [] st = Cont st"
| "forOf body (e # es) st =
     (case body e st of Cont st' \<Rightarrow> forOf body es st' | Return out s \<Rightarrow> Return out s)"

text \<open>The values \<open>gameLoop\<close> closes over during one frame.\<close>

record Frame =
  time :: real
  deltaTime :: real
  phys :: GlobalPhysics
  keys :: "string \<Rightarrow> bool"
  mode :: GameState

section \<open>Behaviour: patrol and turret (gameLoop, AI LOGIC)\<close>

definition setVelocity :: "GameEntity \<Rightarrow> Vector2 \<Rightarrow> Sim \<Rightarrow> GameEntity \<times> Sim" where
  "setVelocity ent v s = (case alloc v s of (a, s') \<Rightarrow> (ent\<lparr>velocity := a\<rparr>, s'))"

definition patrolLogic :: "GameEntity \<Rightarrow> Sim \<Rightarrow> GameEntity \<times> Sim" where
  "patrolLogic ent s =
     (case patrolStart ent of None \<Rightarrow> (ent, s) | Some pStart \<Rightarrow>
      (case patrolEnd ent of None \<Rightarrow> (ent, s) | Some pEnd \<Rightarrow>
         if behavior ent = Some PATROL \<and> \<not> isStatic ent then
           (let speed = orElse (patrolSpeed ent) 100;
                path = \<lparr>x = x pEnd - x pStart, y = y pEnd - y pStart\<rparr>;
                pathLen = sqrt ((x path)\<^sup>2 + (y path)\<^sup>2)
            in if pathLen > 0 then
                 (let toPos = \<lparr>x = x (heap s (pos ent)) - x pStart,
                               y = y (heap s (pos ent)) - y pStart\<rparr>;
                      dot = x toPos * x path + y toPos * y path;
                      proj = dot / (pathLen * pathLen);
                      velocityDot = x (heap s (velocity ent)) * x path
                                  + y (heap s (velocity ent)) * y path;
                      movingTowardsEnd = (velocityDot \<ge> 0)
                  in if x (heap s (velocity ent)) = 0 \<and> y (heap s (velocity ent)) = 0 then
                       setVelocity ent
                         \<lparr>x = (x path / pathLen) * speed, y = (y path / pathLen) * speed\<rparr> s
                     else if movingTowardsEnd \<and> proj \<ge> 1 then
                       setVelocity ent
                         \<lparr>x = - (x path / pathLen) * speed, y = - (y path / pathLen) * speed\<rparr> s
                     else if \<not> movingTowardsEnd \<and> proj \<le> 0 then
                       setVelocity ent
                         \<lparr>x = (x path / pathLen) * speed, y = (y path / pathLen) * speed\<rparr> s
                     else (ent, s))
               else (ent, s))
         else (ent, s)))"

text \<open>
  The turret's aim: \<open>(shouldFire, fireVelocity, spawnPos)\<close> as the three locals stand before the
  firing test.
\<close>

definition turretAim :: "GameEntity \<Rightarrow> Sim \<Rightarrow> bool \<times> Vector2 \<times> Vector2" where
  "turretAim ent s =
     (let idle = (False, \<lparr>x = 0, y = 0\<rparr>,
                  \<lparr>x = x (heap s (pos ent)) + x (sizeE ent) / 2,
                   y = y (heap s (pos ent)) + y (sizeE ent) / 2\<rparr>)
      in case find (\<lambda>e. type e = PLAYER) (currentEntities s) of
           None \<Rightarrow> idle
         | Some player \<Rightarrow>
             if isVisible player then
               (let turretCenter = \<lparr>x = x (heap s (pos ent)) + x (sizeE ent) / 2,
                                    y = y (heap s (pos ent)) + y (sizeE ent) / 2\<rparr>;
                    playerCenter = \<lparr>x = x (heap s (pos player)) + x (sizeE player) / 2,
                                    y = y (heap s (pos player)) + y (sizeE player) / 2\<rparr>;
                    dx = x playerCenter - x turretCenter;
                    dy = y playerCenter - y turretCenter;
                    dist = sqrt (dx * dx + dy * dy)
                in if dist < 500 then
                     (let angle = Math_atan2 dy dx;
                          projSpeed = orElse (projectileSpeed ent) 300;
                          spawnOffset = 35
                      in (True,
                          \<lparr>x = cos angle * projSpeed, y = sin angle * projSpeed\<rparr>,
                          \<lparr>x = x turretCenter + cos angle * spawnOffset - 5,
                           y = y turretCenter + sin angle * spawnOffset - 5\<rparr>))
                   else idle)
             else idle)"

definition newProjectile :: "EntityId \<Rightarrow> nat \<Rightarrow> nat \<Rightarrow> GameEntity" where
  "newProjectile pid p v =
     \<lparr>idE = pid, type = PROJECTILE, pos = p, sizeE = \<lparr>x = 10, y = 10\<rparr>, velocity = v,
      isStatic = False, isSolid = False, isVisible = True, isDeadly = True,
      gravityScale = Some 0, behavior = None, origin = None, patrolStart = None,
      patrolEnd = None, patrolSpeed = None, fireRate = None, projectileSpeed = None,
      lastFireTime = None\<rparr>"

definition turretLogic :: "Frame \<Rightarrow> GameEntity \<Rightarrow> Sim \<Rightarrow> GameEntity \<times> Sim" where
  "turretLogic f ent s =
     (if behavior ent = Some TURRET \<and> truthy (fireRate ent) then
        (let now = time f in
         case turretAim ent s of (shouldFire, fireVelocity, spawnPos) \<Rightarrow>
           if shouldFire \<and>
              (\<not> truthy (lastFireTime ent) \<or>
               (case (lastFireTime ent, fireRate ent) of
                  (Some l, Some r) \<Rightarrow> now - l > r | _ \<Rightarrow> False))
           then
             (case alloc fireVelocity (playSfx SfxShoot s) of (v, s1) \<Rightarrow>
              case alloc spawnPos s1 of (p, s2) \<Rightarrow>
                (ent\<lparr>lastFireTime := Some now\<rparr>,
                 s2\<lparr>newProjectiles :=
                      newProjectiles s2 @ [newProjectile (Proj (idE ent) now) p v]\<rparr>))
           else (ent, s))
      else (ent, s))"

section \<open>Forces and player control\<close>

definition applyForces :: "Frame \<Rightarrow> GameEntity \<Rightarrow> Sim \<Rightarrow> Sim" where
  "applyForces f ent s =
     (let gravityMultiplier = (case gravityScale ent of Some g \<Rightarrow> g | None \<Rightarrow> 1)
      in updY (velocity ent)
           (\<lambda>vy. vy + gravity (phys f) * 2000 * gravityMultiplier * deltaTime f) s)"

definition stepSound :: "Frame \<Rightarrow> Sim \<Rightarrow> Sim" where
  "stepSound f s = (playSfx SfxStep s)\<lparr>lastStepTimeRef := time f\<rparr>"

definition playerControl :: "Frame \<Rightarrow> GameEntity \<Rightarrow> Sim \<Rightarrow> Sim" where
  "playerControl f ent s =
     (if type ent = PLAYER then
        (let MOVE_ACCEL = 300;
             MAX_WALK_SPEED = 200;
             right = (keys f ''ArrowRight'' \<or> keys f ''KeyD'');
             left = (keys f ''ArrowLeft'' \<or> keys f ''KeyA'');
             s1 = (if right then updX (velocity ent) (\<lambda>v. v + MOVE_ACCEL * deltaTime f) s else s);
             s2 = (if left then updX (velocity ent) (\<lambda>v. v - MOVE_ACCEL * deltaTime f) s1 else s1);
             manualInput = (right \<or> left)
         in if manualInput then
              (let s3 = updX (velocity ent) (\<lambda>v. v * friction (phys f)) (s2\<lparr>targetXRef := None\<rparr>)
               in if \<bar>x (heap s3 (velocity ent))\<bar> > 10 \<and> time f - lastStepTimeRef s3 > 300
                     \<and> \<bar>y (heap s3 (velocity ent))\<bar> < 5
                  then stepSound f s3 else s3)
            else
              (case targetXRef s2 of
                 Some targetX \<Rightarrow>
                   (let center = x (heap s2 (pos ent)) + x (sizeE ent) / 2;
                        diff = targetX - center
                    in if \<bar>diff\<bar> < 5 then
                         updX (velocity ent) (\<lambda>_. 0) (s2\<lparr>targetXRef := None\<rparr>)
                       else
                         (let s3 = updX (velocity ent) (\<lambda>_. sgn diff * MAX_WALK_SPEED) s2
                          in if time f - lastStepTimeRef s3 > 300
                                \<and> \<bar>y (heap s3 (velocity ent))\<bar> < 5
                             then stepSound f s3 else s3))
               | None \<Rightarrow> updX (velocity ent) (\<lambda>v. v * friction (phys f)) s2))
      else s)"

section \<open>Collision logic (gameLoop, one axis after the other)\<close>

text \<open>
  The body of the first \<open>for (const other of currentEntities)\<close> loop.  The loop state is the
  entity copy \<open>ent\<close>, the local \<open>nextX\<close> and the shared cells; \<open>entRectX\<close> is fixed before the loop.
\<close>

definition resolveX ::
  "GameEntity \<Rightarrow> GameEntity \<Rightarrow> GameEntity \<times> real \<times> Sim \<Rightarrow> (GameEntity \<times> real \<times> Sim) Flow" where
  "resolveX entRectX other st =
     (case st of (ent, nextX, s) \<Rightarrow>
        if idE ent = idE other then Cont st
        else if \<not> isSolid other \<and> \<not> isDeadly other then Cont st
        else if \<not> isVisible other then Cont st
        else if checkCollision (heap s) entRectX other then
          (if type ent = PLAYER \<and> isDeadly other then Return Reset (playSfx SfxDie s)
           else if type ent = PROJECTILE \<and> type other = PLAYER then
             Return Reset (playSfx SfxDie s)
           else
             (let ent1 = (if type ent = PROJECTILE \<and> type other = WALL
                          then ent\<lparr>isVisible := False\<rparr> else ent)
              in if isSolid other then
                   (let s1 = (if behavior ent = Some PATROL
                              then updX (velocity ent) (\<lambda>v. - v) s
                              else updX (velocity ent) (\<lambda>_. 0) s);
                        s2 = (if type ent = PLAYER then s1\<lparr>targetXRef := None\<rparr> else s1)
                    in Cont (ent1, x (heap s1 (pos ent)), s2))
                 else Cont (ent1, nextX, s)))
        else Cont st)"

text \<open>
  The tentative \<open>nextX\<close> and the world bounds: a projectile more than 100 units off the canvas
  is marked invisible; \<open>nextX\<close> is clamped to the canvas and \<open>velocity.x\<close> zeroed.
\<close>

definition clampX :: "Frame \<Rightarrow> GameEntity \<Rightarrow> Sim \<Rightarrow> GameEntity \<times> real \<times> Sim" where
  "clampX f ent s =
     (let nextX0 = x (heap s (pos ent)) + x (heap s (velocity ent)) * deltaTime f;
          ent1 = (if (nextX0 < - 100 \<or> nextX0 > CANVAS_WIDTH + 100) \<and> type ent = PROJECTILE
                  then ent\<lparr>isVisible := False\<rparr> else ent);
          c1 = (if nextX0 < 0 then (0, updX (velocity ent) (\<lambda>_. 0) s) else (nextX0, s));
          c2 = (if fst c1 > CANVAS_WIDTH - x (sizeE ent)
                then (CANVAS_WIDTH - x (sizeE ent), updX (velocity ent) (\<lambda>_. 0) (snd c1))
                else c1)
      in (ent1, c2))"

definition moveX :: "Frame \<Rightarrow> GameEntity \<Rightarrow> Sim \<Rightarrow> (GameEntity \<times> Sim) Flow" where
  "moveX f ent s =
     (case clampX f ent s of (ent1, nextX1, s1) \<Rightarrow>
      case alloc \<lparr>x = nextX1, y = y (heap s1 (pos ent))\<rparr> s1 of (r, s2) \<Rightarrow>
        (case forOf (resolveX (ent1\<lparr>pos := r\<rparr>)) (currentEntities s2) (ent1, nextX1, s2) of
           Return out s' \<Rightarrow> Return out s'
         | Cont (ent2, nextX, s3) \<Rightarrow> Cont (ent2, updX (pos ent) (\<lambda>_. nextX) s3)))"

text \<open>The body of the second loop; the loop state also carries \<open>nextY\<close> and \<open>grounded\<close>.\<close>

definition resolveY ::
  "GameEntity \<Rightarrow> GameEntity \<Rightarrow> GameEntity \<times> real \<times> bool \<times> Sim
     \<Rightarrow> (GameEntity \<times> real \<times> bool \<times> Sim) Flow" where
  "resolveY entRectY other st =
     (case st of (ent, nextY, grounded, s) \<Rightarrow>
        if idE ent = idE other then Cont st
        else if \<not> isSolid other \<and> \<not> isDeadly other then Cont st
        else if \<not> isVisible other then Cont st
        else if checkCollision (heap s) entRectY other then
          (if type ent = PLAYER \<and> isDeadly other then Return Reset (playSfx SfxDie s)
           else if type ent = PROJECTILE \<and> type other = PLAYER then
             Return Reset (playSfx SfxDie s)
           else
             (let ent1 = (if type ent = PROJECTILE \<and> type other = WALL
                          then ent\<lparr>isVisible := False\<rparr> else ent)
              in if isSolid other then
                   (if y (heap s (velocity ent)) > 0 then
                      Cont (ent1, y (heap s (pos other)) - y (sizeE ent), True,
                            updY (velocity ent) (\<lambda>_. 0) s)
                    else if y (heap s (velocity ent)) < 0 then
                      Cont (ent1, y (heap s (pos other)) + y (sizeE other), grounded,
                            updY (velocity ent) (\<lambda>_. 0) s)
                    else Cont (ent1, nextY, grounded, s))
                 else Cont (ent1, nextY, grounded, s)))
        else Cont st)"

definition moveY :: "Frame \<Rightarrow> GameEntity \<Rightarrow> Sim \<Rightarrow> (GameEntity \<times> bool \<times> Sim) Flow" where
  "moveY f ent s =
     (let nextY0 = y (heap s (pos ent)) + y (heap s (velocity ent)) * deltaTime f
      in case alloc \<lparr>x = x (heap s (pos ent)), y = nextY0\<rparr> s of (r, s1) \<Rightarrow>
         (case forOf (resolveY (ent\<lparr>pos := r\<rparr>)) (currentEntities s1) (ent, nextY0, False, s1) of
            Return out s' \<Rightarrow> Return out s'
          | Cont (ent2, nextY, grounded, s2) \<Rightarrow>
              Cont (ent2, grounded, updY (pos ent) (\<lambda>_. nextY) s2)))"

definition offWorld :: "GameEntity \<Rightarrow> Sim \<Rightarrow> (GameEntity \<times> Sim) Flow" where
  "offWorld ent s =
     (if y (heap s (pos ent)) > CANVAS_HEIGHT + 200 then
        (if type ent = PLAYER then Return Reset (playSfx SfxDie s)
         else if type ent = PROJECTILE then Cont (ent\<lparr>isVisible := False\<rparr>, s)
         else Cont (ent, s))
      else Cont (ent, s))"

definition jump :: "Frame \<Rightarrow> GameEntity \<Rightarrow> bool \<Rightarrow> Sim \<Rightarrow> Sim" where
  "jump f ent grounded s =
     (if type ent = PLAYER \<and> grounded
         \<and> (keys f ''ArrowUp'' \<or> keys f ''KeyW'' \<or> keys f ''Space'')
      then updY (velocity ent) (\<lambda>_. - 600) (playSfx SfxJump s)
      else s)"

definition exitCheck :: "Frame \<Rightarrow> GameEntity \<Rightarrow> Sim \<Rightarrow> Sim Flow" where
  "exitCheck f ent s =
     (if type ent = PLAYER then
        (case find (\<lambda>e. type e = EXIT) (currentEntities s) of
           None \<Rightarrow> Cont s
         | Some exit \<Rightarrow>
             if checkCollision (heap s) ent exit then
               (if mode f = EDITOR then Return Complete (playSfx SfxWin s)
                else Return Complete (playSfx SfxLevelComplete s))
             else Cont s)
      else Cont s)"

section \<open>One entity of the physics sub-step\<close>

definition store :: "nat \<Rightarrow> GameEntity \<Rightarrow> Sim \<Rightarrow> Sim" where
  "store i ent s = s\<lparr>currentEntities := (currentEntities s)[i := ent]\<rparr>"

text \<open>
  The collision logic of one entity and what follows it: the X axis, the Y axis, the off-world
  check, the jump and the exit check; then the entity is stored back
  (\<open>currentEntities[i] = ent\<close>).
\<close>

definition resolveEntity :: "Frame \<Rightarrow> nat \<Rightarrow> GameEntity \<Rightarrow> Sim \<Rightarrow> Sim Flow" where
  "resolveEntity f i ent s =
     (case moveX f ent s of
        Return out s' \<Rightarrow> Return out s'
      | Cont (ent3, s3) \<Rightarrow>
     (case moveY f ent3 s3 of
        Return out s' \<Rightarrow> Return out s'
      | Cont (ent4, grounded, s4) \<Rightarrow>
     (case offWorld ent4 s4 of
        Return out s' \<Rightarrow> Return out s'
      | Cont (ent5, s5) \<Rightarrow>
     (case exitCheck f ent5 (jump f ent5 grounded s5) of
        Return out s' \<Rightarrow> Return out s'
      | Cont s6 \<Rightarrow> Cont (store i ent5 s6)))))"

text \<open>
  What follows the AI logic for one entity: a static entity is stored back as it is
  (\<open>continue\<close>); any other has forces and player control applied and is then resolved.
\<close>

definition integrate :: "Frame \<Rightarrow> nat \<Rightarrow> GameEntity \<Rightarrow> Sim \<Rightarrow> Sim Flow" where
  "integrate f i ent s =
     (if isStatic ent then Cont (store i ent s)
      else resolveEntity f i ent (playerControl f ent (applyForces f ent s)))"

definition processEntity :: "Frame \<Rightarrow> nat \<Rightarrow> Sim \<Rightarrow> Sim Flow" where
  "processEntity f i s =
     (case patrolLogic (currentEntities s ! i) s of (ent1, s1) \<Rightarrow>
      case turretLogic f ent1 s1 of (ent2, s2) \<Rightarrow> integrate f i ent2 s2)"

section \<open>setupLevel and resetLevel\<close>

text \<open>
  The callback of \<open>level.entities.map\<close>: the spread \<open>...e\<close> keeps the template's \<open>pos\<close> object
  (the same address); \<open>velocity\<close> is the template's object when it has one; \<open>origin\<close> is a copy
  of the position's value.
\<close>

definition instantiate :: "EntityTemplate \<Rightarrow> nat \<Rightarrow> (nat \<Rightarrow> Vector2) \<Rightarrow> GameEntity" where
  "instantiate e v h =
     \<lparr>idE = idE e, type = type e, pos = pos e, sizeE = sizeE e, velocity = v,
      isStatic = isStatic e, isSolid = isSolid e, isVisible = isVisible e,
      isDeadly = isDeadly e,
      gravityScale = Some (case gravityScale e of Some g \<Rightarrow> g | None \<Rightarrow> 1),
      behavior = Some (case behavior e of Some b \<Rightarrow> b | None \<Rightarrow> DEFAULT),
      origin = Some (h (pos e)),
      patrolStart = patrolStart e, patrolEnd = patrolEnd e, patrolSpeed = patrolSpeed e,
      fireRate = fireRate e, projectileSpeed = projectileSpeed e,
      lastFireTime = lastFireTime e\<rparr>"

fun mapEntities :: "EntityTemplate list \<Rightarrow> World \<Rightarrow> GameEntity list \<times> World" where
  "mapEntities [] w = ([], w)"
| "mapEntities (e # es) w =
     (case (case velocity e of Some a \<Rightarrow> (a, w) | None \<Rightarrow> alloc \<lparr>x = 0, y = 0\<rparr> w) of
        (v, w1) \<Rightarrow>
          (case mapEntities es w1 of (rest, w2) \<Rightarrow> (instantiate e v (heap w1) # rest, w2)))"

definition newPlayer :: "nat \<Rightarrow> nat \<Rightarrow> GameEntity" where
  "newPlayer p v =
     \<lparr>idE = Named ''player_1'', type = PLAYER, pos = p, sizeE = PLAYER_SIZE, velocity = v,
      isStatic = False, isSolid = True, isVisible = True, isDeadly = False,
      gravityScale = Some 1, behavior = None, origin = None, patrolStart = None,
      patrolEnd = None, patrolSpeed = None, fireRate = None, projectileSpeed = None,
      lastFireTime = None\<rparr>"

definition setupLevel :: "LevelData \<Rightarrow> World \<Rightarrow> World" where
  "setupLevel level w =
     (case alloc (startPos level) w of (p, w1) \<Rightarrow>
      case alloc \<lparr>x = 0, y = 0\<rparr> w1 of (v, w2) \<Rightarrow>
      case mapEntities (entities level) w2 of (initialEntities, w3) \<Rightarrow>
        w3\<lparr>entitiesRef := initialEntities @ [newPlayer p v],
           physicsRef := physics level,
           targetXRef := None\<rparr>)"

definition currentLevel :: "World \<Rightarrow> LevelData" where
  "currentLevel w =
     (case find (\<lambda>l. levelId l = currentLevelId w) (fst (LEVELS w) # snd (LEVELS w)) of
        Some l \<Rightarrow> l
      | None \<Rightarrow> fst (LEVELS w))"

definition resetLevel :: "World \<Rightarrow> World" where
  "resetLevel w =
     (if gameState w = EDITOR \<and> isEditorTesting w
      then setupLevel (editorLevel w) w
      else setupLevel (currentLevel w) w)\<lparr>targetXRef := None\<rparr>"

section \<open>gameLoop\<close>

definition frameDeltaTime :: "real \<Rightarrow> World \<Rightarrow> real" where
  "frameDeltaTime t w = min ((t - lastTimeRef w) / 1000) 0.05 * timeScale (physicsRef w)"

definition enter :: "World \<Rightarrow> Sim" where
  "enter w =
     \<lparr>heap = heap w, nextRef = nextRef w, targetXRef = targetXRef w,
      lastStepTimeRef = lastStepTimeRef w, sfx = sfx w,
      currentEntities = entitiesRef w, newProjectiles = []\<rparr>"

definition leave :: "Sim \<Rightarrow> World \<Rightarrow> World" where
  "leave s w =
     w\<lparr>heap := heap s, nextRef := nextRef s, targetXRef := targetXRef s,
       lastStepTimeRef := lastStepTimeRef s, sfx := sfx s\<rparr>"

definition physicsSubstep :: "Frame \<Rightarrow> nat list \<Rightarrow> Sim \<Rightarrow> Sim Flow" where
  "physicsSubstep f ixs s = forOf (processEntity f) ixs s"

definition activeEntities :: "Sim \<Rightarrow> GameEntity list" where
  "activeEntities s =
     filter (\<lambda>e. isVisible e \<or> (type e \<noteq> PROJECTILE \<and> \<not> isVisible e)) (currentEntities s)
       @ newProjectiles s"

datatype FrameResult = Skipped | Committed | LevelReset | LevelComplete

definition frameOf :: "real \<Rightarrow> (string \<Rightarrow> bool) \<Rightarrow> World \<Rightarrow> Frame" where
  "frameOf t ks w =
     \<lparr>time = t, deltaTime = frameDeltaTime t w, phys = physicsRef w, keys = ks,
      mode = gameState w\<rparr>"

definition gameLoop :: "real \<Rightarrow> (string \<Rightarrow> bool) \<Rightarrow> World \<Rightarrow> FrameResult \<times> World" where
  "gameLoop t ks w =
     (let isRunning = ((gameState w = PLAYING \<or> (gameState w = EDITOR \<and> isEditorTesting w))
                       \<and> \<not> isPaused w)
      in if \<not> isRunning then (Skipped, w)
         else
           (let w1 = w\<lparr>lastTimeRef := t\<rparr>
            in case physicsSubstep (frameOf t ks w) [0..<length (entitiesRef w)] (enter w) of
                 Return Reset s \<Rightarrow> (LevelReset, resetLevel (leave s w1))
               | Return Complete s \<Rightarrow>
                   (LevelComplete,
                    if gameState w = EDITOR then (leave s w1)\<lparr>isEditorTesting := False\<rparr>
                    else leave s w1)
               | Cont s \<Rightarrow> (Committed, (leave s w1)\<lparr>entitiesRef := activeEntities s\<rparr>)))"

section \<open>Footprints and invariants of the store\<close>

text \<open>
  \<open>hides ent ent'\<close>: \<open>ent'\<close> is \<open>ent\<close> up to its \<open>isVisible\<close> flag.  \<open>ext A s s'\<close>: from \<open>s\<close> to \<open>s'\<close>
  only the objects at the addresses \<open>A\<close> were written and new objects allocated.
  \<open>stepRel K s s'\<close>: the same for a run of the loop over the indices \<open>K\<close>, with what it does
  to \<open>currentEntities\<close> and \<open>newProjectiles\<close>.  \<open>allocated\<close>: every entity's objects are allocated.
  \<open>apart\<close>: the position and velocity objects of the entities and of the pending projectiles
  are pairwise distinct objects (in JavaScript each object literal is an object of its own).
  \<open>others view ent s\<close>: every entity of the list other than \<open>ent\<close> (another id or another
  type) has a position object that is allocated, is neither of the two objects of \<open>ent\<close>, and
  holds in the store of \<open>s\<close> the value it has in \<open>view\<close>.
\<close>

definition hides :: "GameEntity \<Rightarrow> GameEntity \<Rightarrow> bool" where
  "hides ent ent' \<longleftrightarrow> (\<exists>b. ent' = ent\<lparr>isVisible := b\<rparr>)"

definition ext :: "nat set \<Rightarrow> Sim \<Rightarrow> Sim \<Rightarrow> bool" where
  "ext A s s' \<longleftrightarrow>
     nextRef s \<le> nextRef s'
     \<and> (\<forall>a. a < nextRef s \<longrightarrow> a \<notin> A \<longrightarrow> heap s' a = heap s a)
     \<and> currentEntities s' = currentEntities s
     \<and> newProjectiles s' = newProjectiles s"

definition stepRel :: "nat set \<Rightarrow> Sim \<Rightarrow> Sim \<Rightarrow> bool" where
  "stepRel K s s' \<longleftrightarrow>
     nextRef s \<le> nextRef s'
     \<and> length (currentEntities s') = length (currentEntities s)
     \<and> (\<forall>j. j < length (currentEntities s) \<longrightarrow>
           (j \<notin> K \<longrightarrow> currentEntities s' ! j = currentEntities s ! j)
           \<and> pos (currentEntities s' ! j) = pos (currentEntities s ! j)
           \<and> idE (currentEntities s' ! j) = idE (currentEntities s ! j)
           \<and> type (currentEntities s' ! j) = type (currentEntities s ! j)
           \<and> (velocity (currentEntities s' ! j) = velocity (currentEntities s ! j)
                \<or> (nextRef s \<le> velocity (currentEntities s' ! j)
                    \<and> velocity (currentEntities s' ! j) < nextRef s')))
     \<and> (\<forall>c. c < nextRef s \<longrightarrow>
           (\<forall>k. k \<in> K \<longrightarrow> k < length (currentEntities s) \<longrightarrow>
                c \<noteq> pos (currentEntities s ! k) \<and> c \<noteq> velocity (currentEntities s ! k))
           \<longrightarrow> heap s' c = heap s c)
     \<and> (\<exists>ps. newProjectiles s' = newProjectiles s @ ps
           \<and> (\<forall>p. p \<in> set ps \<longrightarrow> type p = PROJECTILE
                 \<and> nextRef s \<le> pos p \<and> pos p < nextRef s'
                 \<and> nextRef s \<le> velocity p \<and> velocity p < nextRef s'))"

definition allocated :: "Sim \<Rightarrow> bool" where
  "allocated s \<longleftrightarrow>
     (\<forall>e. e \<in> set (currentEntities s) \<longrightarrow> pos e < nextRef s \<and> velocity e < nextRef s)
     \<and> (\<forall>p. p \<in> set (newProjectiles s) \<longrightarrow> pos p < nextRef s \<and> velocity p < nextRef s)"

definition cells :: "GameEntity list \<Rightarrow> nat list" where
  "cells es = map pos es @ map velocity es"

definition apart :: "Sim \<Rightarrow> bool" where
  "apart s \<longleftrightarrow> distinct (cells (currentEntities s @ newProjectiles s))"

definition others :: "(nat \<Rightarrow> Vector2) \<Rightarrow> GameEntity \<Rightarrow> Sim \<Rightarrow> bool" where
  "others view ent s \<longleftrightarrow>
     (\<forall>e. e \<in> set (currentEntities s) \<longrightarrow> (idE e \<noteq> idE ent \<or> type e \<noteq> type ent) \<longrightarrow>
        pos e \<noteq> pos ent \<and> pos e \<noteq> velocity ent \<and> pos e < nextRef s
        \<and> heap s (pos e) = view (pos e))"

text \<open>
  \<open>aimOf i s\<close>: the velocity and the position that the turret logic of entity \<open>i\<close> gives a
  projectile it creates in state \<open>s\<close> (\<open>fireVelocity\<close>, \<open>spawnPos\<close>).
\<close>

definition aimOf :: "nat \<Rightarrow> Sim \<Rightarrow> Vector2 \<times> Vector2" where
  "aimOf i s = (case patrolLogic (currentEntities s ! i) s of (ent1, s1) \<Rightarrow> snd (turretAim ent1 s1))"

text \<open>
  A blueprint is well formed in a store when its templates' position and velocity objects are
  allocated and pairwise distinct.
\<close>

definition templateVelocities :: "EntityTemplate list \<Rightarrow> nat list" where
  "templateVelocities es = concat (map (\<lambda>e. case velocity e of Some a \<Rightarrow> [a] | None \<Rightarrow> []) es)"

definition wellFormedLevel :: "LevelData \<Rightarrow> World \<Rightarrow> bool" where
  "wellFormedLevel level w \<longleftrightarrow>
     distinct (map pos (entities level) @ templateVelocities (entities level))
     \<and> (\<forall>c. c \<in> set (map pos (entities level) @ templateVelocities (entities level))
            \<longrightarrow> c < nextRef w)"

section \<open>One entity's step with the other entities' positions read from a given store\<close>

text \<open>
  The specification's reading of a frame: the collision queries made while an entity is
  resolved take the other entities' positions from a store \<open>view\<close> that is fixed beforehand (a
  snapshot), not from the live store.  The definitions below are the step of one entity written
  to this reading.  \<open>overlapAt\<close> is the rectangle test on values.  \<open>resolveXAt\<close>, \<open>resolveYAt\<close>
  and \<open>exitCheckAt\<close> are the body of the collision loop of each axis and the exit check with
  \<open>other.pos\<close> (\<open>exit.pos\<close>) read from \<open>view\<close>; the entity's own rectangle, its velocity and
  everything that is written are those of the live store.  \<open>moveXAt\<close>, \<open>moveYAt\<close>,
  \<open>resolveEntityAt\<close> and \<open>processEntityAt\<close> compose them as \<open>moveX\<close>, \<open>moveY\<close>, \<open>resolveEntity\<close>,
  \<open>integrate\<close> and \<open>processEntity\<close> compose the functions of the code.  The section on C1 compares
  them with the step of the code.
\<close>

definition overlapAt :: "Vector2 \<Rightarrow> Vector2 \<Rightarrow> Vector2 \<Rightarrow> Vector2 \<Rightarrow> bool" where
  "overlapAt pa sa pb sb \<longleftrightarrow>
     x pa < x pb + x sb \<and> x pa + x sa > x pb \<and> y pa < y pb + y sb \<and> y pa + y sa > y pb"

definition resolveXAt ::
  "(nat \<Rightarrow> Vector2) \<Rightarrow> GameEntity \<Rightarrow> GameEntity \<Rightarrow> GameEntity \<times> real \<times> Sim
     \<Rightarrow> (GameEntity \<times> real \<times> Sim) Flow" where
  "resolveXAt view entRectX other st =
     (case st of (ent, nextX, s) \<Rightarrow>
        if idE ent = idE other then Cont st
        else if \<not> isSolid other \<and> \<not> isDeadly other then Cont st
        else if \<not> isVisible other then Cont st
        else if overlapAt (heap s (pos entRectX)) (sizeE entRectX)
                  (view (pos other)) (sizeE other) then
          (if type ent = PLAYER \<and> isDeadly other then Return Reset (playSfx SfxDie s)
           else if type ent = PROJECTILE \<and> type other = PLAYER then
             Return Reset (playSfx SfxDie s)
           else
             (let ent1 = (if type ent = PROJECTILE \<and> type other = WALL
                          then ent\<lparr>isVisible := False\<rparr> else ent)
              in if isSolid other then
                   (let s1 = (if behavior ent = Some PATROL
                              then updX (velocity ent) (\<lambda>v. - v) s
                              else updX (velocity ent) (\<lambda>_. 0) s);
                        s2 = (if type ent = PLAYER then s1\<lparr>targetXRef := None\<rparr> else s1)
                    in Cont (ent1, x (heap s1 (pos ent)), s2))
                 else Cont (ent1, nextX, s)))
        else Cont st)"

definition moveXAt ::
  "(nat \<Rightarrow> Vector2) \<Rightarrow> Frame \<Rightarrow> GameEntity \<Rightarrow> Sim \<Rightarrow> (GameEntity \<times> Sim) Flow" where
  "moveXAt view f ent s =
     (case clampX f ent s of (ent1, nextX1, s1) \<Rightarrow>
      case alloc \<lparr>x = nextX1, y = y (heap s1 (pos ent))\<rparr> s1 of (r, s2) \<Rightarrow>
        (case forOf (resolveXAt view (ent1\<lparr>pos := r\<rparr>)) (currentEntities s2) (ent1, nextX1, s2) of
           Return out s' \<Rightarrow> Return out s'
         | Cont (ent2, nextX, s3) \<Rightarrow> Cont (ent2, updX (pos ent) (\<lambda>_. nextX) s3)))"

definition resolveYAt ::
  "(nat \<Rightarrow> Vector2) \<Rightarrow> GameEntity \<Rightarrow> GameEntity \<Rightarrow> GameEntity \<times> real \<times> bool \<times> Sim
     \<Rightarrow> (GameEntity \<times> real \<times> bool \<times> Sim) Flow" where
  "resolveYAt view entRectY other st =
     (case st of (ent, nextY, grounded, s) \<Rightarrow>
        if idE ent = idE other then Cont st
        else if \<not> isSolid other \<and> \<not> isDeadly other then Cont st
        else if \<not> isVisible other then Cont st
        else if overlapAt (heap s (pos entRectY)) (sizeE entRectY)
                  (view (pos other)) (sizeE other) then
          (if type ent = PLAYER \<and> isDeadly other then Return Reset (playSfx SfxDie s)
           else if type ent = PROJECTILE \<and> type other = PLAYER then
             Return Reset (playSfx SfxDie s)
           else
             (let ent1 = (if type ent = PROJECTILE \<and> type other = WALL
                          then ent\<lparr>isVisible := False\<rparr> else ent)
              in if isSolid other then
                   (if y (heap s (velocity ent)) > 0 then
                      Cont (ent1, y (view (pos other)) - y (sizeE ent), True,
                            updY (velocity ent) (\<lambda>_. 0) s)
                    else if y (heap s (velocity ent)) < 0 then
                      Cont (ent1, y (view (pos other)) + y (sizeE other), grounded,
                            updY (velocity ent) (\<lambda>_. 0) s)
                    else Cont (ent1, nextY, grounded, s))
                 else Cont (ent1, nextY, grounded, s)))
        else Cont st)"

definition moveYAt ::
  "(nat \<Rightarrow> Vector2) \<Rightarrow> Frame \<Rightarrow> GameEntity \<Rightarrow> Sim \<Rightarrow> (GameEntity \<times> bool \<times> Sim) Flow" where
  "moveYAt view f ent s =
     (let nextY0 = y (heap s (pos ent)) + y (heap s (velocity ent)) * deltaTime f
      in case alloc \<lparr>x = x (heap s (pos ent)), y = nextY0\<rparr> s of (r, s1) \<Rightarrow>
         (case forOf (resolveYAt view (ent\<lparr>pos := r\<rparr>)) (currentEntities s1)
                 (ent, nextY0, False, s1) of
            Return out s' \<Rightarrow> Return out s'
          | Cont (ent2, nextY, grounded, s2) \<Rightarrow>
              Cont (ent2, grounded, updY (pos ent) (\<lambda>_. nextY) s2)))"

definition exitCheckAt :: "(nat \<Rightarrow> Vector2) \<Rightarrow> Frame \<Rightarrow> GameEntity \<Rightarrow> Sim \<Rightarrow> Sim Flow" where
  "exitCheckAt view f ent s =
     (if type ent = PLAYER then
        (case find (\<lambda>e. type e = EXIT) (currentEntities s) of
           None \<Rightarrow> Cont s
         | Some exit \<Rightarrow>
             if overlapAt (heap s (pos ent)) (sizeE ent) (view (pos exit)) (sizeE exit) then
               (if mode f = EDITOR then Return Complete (playSfx SfxWin s)
                else Return Complete (playSfx SfxLevelComplete s))
             else Cont s)
      else Cont s)"

definition resolveEntityAt ::
  "(nat \<Rightarrow> Vector2) \<Rightarrow> Frame \<Rightarrow> nat \<Rightarrow> GameEntity \<Rightarrow> Sim \<Rightarrow> Sim Flow" where
  "resolveEntityAt view f i ent s =
     (case moveXAt view f ent s of
        Return out s' \<Rightarrow> Return out s'
      | Cont (ent3, s3) \<Rightarrow>
     (case moveYAt view f ent3 s3 of
        Return out s' \<Rightarrow> Return out s'
      | Cont (ent4, grounded, s4) \<Rightarrow>
     (case offWorld ent4 s4 of
        Return out s' \<Rightarrow> Return out s'
      | Cont (ent5, s5) \<Rightarrow>
     (case exitCheckAt view f ent5 (jump f ent5 grounded s5) of
        Return out s' \<Rightarrow> Return out s'
      | Cont s6 \<Rightarrow> Cont (store i ent5 s6)))))"

definition processEntityAt :: "(nat \<Rightarrow> Vector2) \<Rightarrow> Frame \<Rightarrow> nat \<Rightarrow> Sim \<Rightarrow> Sim Flow" where
  "processEntityAt view f i s =
     (case patrolLogic (currentEntities s ! i) s of (ent1, s1) \<Rightarrow>
      case turretLogic f ent1 s1 of (ent2, s2) \<Rightarrow>
        if isStatic ent2 then Cont (store i ent2 s2)
        else resolveEntityAt view f i ent2 (playerControl f ent2 (applyForces f ent2 s2)))"

section \<open>Projectiles waiting in newProjectiles\<close>

text \<open>
  \<open>pending qs s\<close>: the state \<open>s\<close> with the projectiles \<open>qs\<close> already waiting at the front of
  \<open>newProjectiles\<close>.  \<open>onFlow g h\<close> applies \<open>g\<close> to the state a flow continues with and \<open>h\<close> to
  the cells an early return carries.
\<close>

definition pending :: "GameEntity list \<Rightarrow> Sim \<Rightarrow> Sim" where
  "pending qs s = s\<lparr>newProjectiles := qs @ newProjectiles s\<rparr>"

fun onFlow :: "('a \<Rightarrow> 'a) \<Rightarrow> (Sim \<Rightarrow> Sim) \<Rightarrow> 'a Flow \<Rightarrow> 'a Flow" where
  "onFlow g h (Cont a) = Cont (g a)"
| "onFlow g h (Return out s) = Return out (h s)"

section \<open>A turret over successive frames\<close>






section \<open>Sample inputs\<close>

text \<open>
  Concrete entities, stores, frames and component states, for evaluating the definitions above.
  \<open>DEFAULT_PHYSICS\<close> is the constant of \<open>constants.ts\<close>.
\<close>

definition entityAt :: "EntityId \<Rightarrow> EntityType \<Rightarrow> nat \<Rightarrow> Vector2 \<Rightarrow> nat \<Rightarrow> GameEntity" where
  "entityAt i t p sz v =
     \<lparr>idE = i, type = t, pos = p, sizeE = sz, velocity = v,
      isStatic = True, isSolid = True, isVisible = True, isDeadly = False,
      gravityScale = Some 1, behavior = Some DEFAULT, origin = None, patrolStart = None,
      patrolEnd = None, patrolSpeed = None, fireRate = None, projectileSpeed = None,
      lastFireTime = None\<rparr>"

definition heapOf :: "Vector2 list \<Rightarrow> nat \<Rightarrow> Vector2" where
  "heapOf vs a = (if a < length vs then vs ! a else \<lparr>x = 0, y = 0\<rparr>)"

definition DEFAULT_PHYSICS :: GlobalPhysics where
  "DEFAULT_PHYSICS = \<lparr>gravity = 0.5, friction = 0.85, timeScale = 1.0\<rparr>"

definition simOf :: "Vector2 list \<Rightarrow> GameEntity list \<Rightarrow> real option \<Rightarrow> Sim" where
  "simOf vs es tx =
     \<lparr>heap = heapOf vs, nextRef = length vs, targetXRef = tx, lastStepTimeRef = 0, sfx = [],
      currentEntities = es, newProjectiles = []\<rparr>"

definition frameAt :: "real \<Rightarrow> real \<Rightarrow> string list \<Rightarrow> Frame" where
  "frameAt t dt held =
     \<lparr>time = t, deltaTime = dt, phys = DEFAULT_PHYSICS, keys = (\<lambda>k. k \<in> set held),
      mode = PLAYING\<rparr>"

definition worldOf :: "Vector2 list \<Rightarrow> GameEntity list \<Rightarrow> GlobalPhysics \<Rightarrow> LevelData \<Rightarrow> World" where
  "worldOf vs es ph level =
     \<lparr>heap = heapOf vs, nextRef = length vs, targetXRef = None, lastStepTimeRef = 0, sfx = [],
      entitiesRef = es, physicsRef = ph, lastTimeRef = 0, gameState = PLAYING,
      isEditorTesting = False, isPaused = False, currentLevelId = levelId level,
      editorLevel = \<lparr>levelId = 99, startPos = \<lparr>x = 50, y = 400\<rparr>, entities = [],
                      physics = DEFAULT_PHYSICS\<rparr>,
      LEVELS = (level, [])\<rparr>"

definition emptyLevel :: LevelData where
  "emptyLevel = \<lparr>levelId = 1, startPos = \<lparr>x = 50, y = 400\<rparr>, entities = [],
                  physics = DEFAULT_PHYSICS\<rparr>"

definition patroller :: "nat \<Rightarrow> nat \<Rightarrow> real option \<Rightarrow> GameEntity" where
  "patroller p v sp =
     (entityAt (Named ''enemy_1'') ENEMY p \<lparr>x = 30, y = 30\<rparr> v)
       \<lparr>isStatic := False, isDeadly := True, behavior := Some PATROL,
        patrolStart := Some \<lparr>x = 0, y = 0\<rparr>, patrolEnd := Some \<lparr>x = 100, y = 0\<rparr>,
        patrolSpeed := sp\<rparr>"

definition fallingBox :: GameEntity where
  "fallingBox = (entityAt (Named ''box_1'') ENEMY 0 \<lparr>x = 30, y = 30\<rparr> 1)\<lparr>isStatic := False\<rparr>"

definition runner :: "nat \<Rightarrow> nat \<Rightarrow> GameEntity" where
  "runner p v = (entityAt (Named ''player_1'') PLAYER p PLAYER_SIZE v)
                  \<lparr>isStatic := False, behavior := None\<rparr>"

definition boxScene :: Sim where
  "boxScene =
     simOf [\<lparr>x = 100, y = 100\<rparr>, \<lparr>x = 0, y = 0\<rparr>, \<lparr>x = 300, y = 100\<rparr>, \<lparr>x = 0, y = 0\<rparr>,
            \<lparr>x = 0, y = 450\<rparr>, \<lparr>x = 0, y = 0\<rparr>]
       [fallingBox, runner 2 3, entityAt (Named ''wall_1'') WALL 4 \<lparr>x = 800, y = 50\<rparr> 5] None"

definition turret :: "nat \<Rightarrow> nat \<Rightarrow> real option \<Rightarrow> GameEntity" where
  "turret p v l =
     (entityAt (Named ''turret_1'') ENEMY p \<lparr>x = 30, y = 30\<rparr> v)
       \<lparr>behavior := Some TURRET, fireRate := Some 2000, lastFireTime := l\<rparr>"

definition turretScene :: Sim where
  "turretScene =
     simOf [\<lparr>x = 100, y = 100\<rparr>, \<lparr>x = 0, y = 0\<rparr>, \<lparr>x = 199, y = 99\<rparr>, \<lparr>x = 0, y = 0\<rparr>]
       [turret 0 1 None, runner 2 3] None"

definition turretWorld :: World where
  "turretWorld =
     (worldOf [\<lparr>x = 100, y = 100\<rparr>, \<lparr>x = 0, y = 0\<rparr>, \<lparr>x = 199, y = 99\<rparr>, \<lparr>x = 0, y = 0\<rparr>]
        [turret 0 1 None, runner 2 3] \<lparr>gravity = 0, friction = 0.85, timeScale = 1\<rparr> emptyLevel)"

definition templateAt :: "EntityId \<Rightarrow> EntityType \<Rightarrow> nat \<Rightarrow> Vector2 \<Rightarrow> nat option \<Rightarrow> EntityTemplate" where
  "templateAt i t p sz v =
     \<lparr>idE = i, type = t, pos = p, sizeE = sz, velocity = v,
      isStatic = True, isSolid = True, isVisible = True, isDeadly = False,
      gravityScale = None, behavior = None, origin = None, patrolStart = None,
      patrolEnd = None, patrolSpeed = None, fireRate = None, projectileSpeed = None,
      lastFireTime = None\<rparr>"

definition zeroSizeLevel :: LevelData where
  "zeroSizeLevel =
     \<lparr>levelId = 1, startPos = \<lparr>x = 50, y = 400\<rparr>,
      entities = [templateAt (Named ''wall_1'') WALL 0 \<lparr>x = 0, y = 0\<rparr> None],
      physics = DEFAULT_PHYSICS\<rparr>"

definition zeroSizeWorld :: World where
  "zeroSizeWorld = worldOf [\<lparr>x = 100, y = 100\<rparr>] [] DEFAULT_PHYSICS zeroSizeLevel"

definition hiddenSpike :: GameEntity where
  "hiddenSpike = (entityAt (Named ''spike_1'') ENEMY 0 \<lparr>x = 30, y = 30\<rparr> 1)
                   \<lparr>isDeadly := True, isVisible := False\<rparr>"

definition spikeScene :: Sim where
  "spikeScene =
     simOf [\<lparr>x = 60, y = 410\<rparr>, \<lparr>x = 0, y = 0\<rparr>, \<lparr>x = 50, y = 400\<rparr>, \<lparr>x = 0, y = 0\<rparr>]
       [hiddenSpike, runner 2 3] None"

definition hiddenExitWorld :: World where
  "hiddenExitWorld =
     worldOf [\<lparr>x = 50, y = 400\<rparr>, \<lparr>x = 0, y = 0\<rparr>, \<lparr>x = 60, y = 420\<rparr>, \<lparr>x = 0, y = 0\<rparr>]
       [(entityAt (Named ''exit_1'') EXIT 0 \<lparr>x = 50, y = 100\<rparr> 1)
          \<lparr>isSolid := False, isVisible := False\<rparr>,
        runner 2 3]
       \<lparr>gravity = 0, friction = 0.85, timeScale = 1\<rparr> emptyLevel"

definition trapLevel :: LevelData where
  "trapLevel =
     \<lparr>levelId = 1, startPos = \<lparr>x = 50, y = 400\<rparr>,
      entities =
        [(templateAt (Named ''crate_1'') ENEMY 0 \<lparr>x = 30, y = 30\<rparr> (Some 1))\<lparr>isStatic := False\<rparr>,
         (templateAt (Named ''spike_1'') ENEMY 2 \<lparr>x = 30, y = 30\<rparr> (Some 3))\<lparr>isDeadly := True\<rparr>],
      physics = DEFAULT_PHYSICS\<rparr>"

definition trapWorld :: World where
  "trapWorld =
     worldOf [\<lparr>x = 300, y = 100\<rparr>, \<lparr>x = 0, y = 0\<rparr>, \<lparr>x = 50, y = 400\<rparr>, \<lparr>x = 0, y = 0\<rparr>] []
       DEFAULT_PHYSICS trapLevel"

definition runnerWorld :: "GameEntity \<Rightarrow> World" where
  "runnerWorld e =
     (worldOf [\<lparr>x = 50, y = 400\<rparr>, \<lparr>x = 100, y = 0\<rparr>] [e]
        \<lparr>gravity = 0, friction = 0.85, timeScale = 1\<rparr> emptyLevel)\<lparr>targetXRef := Some 700\<rparr>"

definition ambushWorld :: World where
  "ambushWorld =
     (worldOf [\<lparr>x = 100, y = 100\<rparr>, \<lparr>x = 0, y = 0\<rparr>, \<lparr>x = 131, y = 99\<rparr>, \<lparr>x = 0, y = 0\<rparr>]
        [turret 0 1 None, runner 2 3] \<lparr>gravity = 0, friction = 0.85, timeScale = 1\<rparr> emptyLevel)
       \<lparr>lastTimeRef := 984\<rparr>"

definition chaser :: GameEntity where
  "chaser = (entityAt (Named ''enemy_1'') ENEMY 0 \<lparr>x = 30, y = 30\<rparr> 1)
              \<lparr>isStatic := False, isDeadly := True\<rparr>"

definition chaseWorld :: World where
  "chaseWorld =
     worldOf [\<lparr>x = 100, y = 100\<rparr>, \<lparr>x = 1000, y = 0\<rparr>, \<lparr>x = 60, y = 99\<rparr>, \<lparr>x = 1000, y = 0\<rparr>]
       [chaser, runner 2 3] \<lparr>gravity = 0, friction = 0.85, timeScale = 1\<rparr> emptyLevel"


section \<open>Reading the store after a write\<close>

lemma heap_updX [simp]: "heap (updX a g s) = (heap s)(a := (heap s a)\<lparr>x := g (x (heap s a))\<rparr>)"
  by (simp add: updX_def)

lemma heap_updY [simp]: "heap (updY a g s) = (heap s)(a := (heap s a)\<lparr>y := g (y (heap s a))\<rparr>)"
  by (simp add: updY_def)

lemma targetXRef_updX [simp]: "targetXRef (updX a g s) = targetXRef s"
  by (simp add: updX_def)

lemma targetXRef_stepSound [simp]: "targetXRef (stepSound f s) = targetXRef s"
  by (simp add: stepSound_def playSfx_def)

lemma heap_stepSound [simp]: "heap (stepSound f s) = heap s"
  by (simp add: stepSound_def playSfx_def)

lemma updX_proj [simp]:
  "nextRef (updX a g s) = nextRef s" "currentEntities (updX a g s) = currentEntities s"
  "newProjectiles (updX a g s) = newProjectiles s"
  by (simp_all add: updX_def)

lemma updY_proj [simp]:
  "nextRef (updY a g s) = nextRef s" "currentEntities (updY a g s) = currentEntities s"
  "newProjectiles (updY a g s) = newProjectiles s"
  by (simp_all add: updY_def)

lemma playSfx_proj [simp]:
  "nextRef (playSfx c s) = nextRef s" "currentEntities (playSfx c s) = currentEntities s"
  "newProjectiles (playSfx c s) = newProjectiles s" "heap (playSfx c s) = heap s"
  by (simp_all add: playSfx_def)

lemma stepSound_proj [simp]:
  "nextRef (stepSound f s) = nextRef s" "currentEntities (stepSound f s) = currentEntities s"
  "newProjectiles (stepSound f s) = newProjectiles s"
  by (simp_all add: stepSound_def)

lemma applyForces_proj [simp]:
  "nextRef (applyForces f ent s) = nextRef s"
  "currentEntities (applyForces f ent s) = currentEntities s"
  "newProjectiles (applyForces f ent s) = newProjectiles s"
  by (simp_all add: applyForces_def)

lemma applyForces_heap: "a \<noteq> velocity ent \<Longrightarrow> heap (applyForces f ent s) a = heap s a"
  by (simp add: applyForces_def)

lemma playerControl_proj [simp]:
  "nextRef (playerControl f ent s) = nextRef s"
  "currentEntities (playerControl f ent s) = currentEntities s"
  "newProjectiles (playerControl f ent s) = newProjectiles s"
  by (simp_all add: playerControl_def Let_def split: option.splits)

lemma playerControl_heap: "a \<noteq> velocity ent \<Longrightarrow> heap (playerControl f ent s) a = heap s a"
  by (simp add: playerControl_def Let_def split: option.splits)

lemma hides_refl [simp]: "hides ent ent"
  unfolding hides_def by (rule exI [of _ "isVisible ent"]) simp

lemma hides_False [simp]: "hides ent (ent\<lparr>isVisible := False\<rparr>)"
  unfolding hides_def by blast

lemma hides_trans: "hides a b \<Longrightarrow> hides b c \<Longrightarrow> hides a c"
  unfolding hides_def by auto

lemma hides_fields:
  "hides ent ent' \<Longrightarrow> pos ent' = pos ent \<and> velocity ent' = velocity ent \<and> idE ent' = idE ent
     \<and> type ent' = type ent \<and> sizeE ent' = sizeE ent \<and> behavior ent' = behavior ent
     \<and> isStatic ent' = isStatic ent \<and> lastFireTime ent' = lastFireTime ent
     \<and> fireRate ent' = fireRate ent"
  unfolding hides_def by auto

lemma ext_refl [simp]: "ext A s s"
  by (simp add: ext_def)

lemma ext_trans: "ext A s s1 \<Longrightarrow> ext A s1 s2 \<Longrightarrow> ext A s s2"
  by (auto simp: ext_def)

lemma ext_mono: "ext A s s' \<Longrightarrow> A \<subseteq> B \<Longrightarrow> ext B s s'"
  by (auto simp: ext_def)

lemma ext_alloc: "alloc v s = (a, s') \<Longrightarrow> ext A s s'"
  by (auto simp: ext_def alloc_def)

lemma alloc_fresh:
  "alloc v s = (a, s') \<Longrightarrow> a = nextRef s \<and> nextRef s' = Suc (nextRef s) \<and> heap s' a = v"
  by (auto simp: alloc_def)

lemma ext_updX: "a \<in> A \<Longrightarrow> ext A s (updX a g s)"
  by (simp add: ext_def)

lemma ext_updY: "a \<in> A \<Longrightarrow> ext A s (updY a g s)"
  by (simp add: ext_def)

lemma ext_applyForces: "velocity ent \<in> A \<Longrightarrow> ext A s (applyForces f ent s)"
  by (auto simp: ext_def intro!: applyForces_heap)

lemma ext_playerControl: "velocity ent \<in> A \<Longrightarrow> ext A s (playerControl f ent s)"
  by (auto simp: ext_def intro!: playerControl_heap)

lemma resolveX_Cont:
  "resolveX rect other (ent, nx, s) = Cont (ent', nx', s') \<Longrightarrow>
     ext {velocity ent} s s' \<and> hides ent ent'"
  by (auto simp: resolveX_def Let_def ext_def split: if_splits)

lemma resolveY_Cont:
  "resolveY rect other (ent, ny, g, s) = Cont (ent', ny', g', s') \<Longrightarrow>
     ext {velocity ent} s s' \<and> hides ent ent'"
  by (auto simp: resolveY_def Let_def ext_def split: if_splits)

lemma forOf_resolveX_Cont:
  "forOf (resolveX rect) os (ent, nx, s) = Cont (ent', nx', s') \<Longrightarrow>
     ext {velocity ent} s s' \<and> hides ent ent'"
proof (induction os arbitrary: ent nx s)
  case Nil
  then show ?case by simp
next
  case (Cons other os)
  from Cons.prems obtain ent1 nx1 s1 where
    step: "resolveX rect other (ent, nx, s) = Cont (ent1, nx1, s1)" and
    rest: "forOf (resolveX rect) os (ent1, nx1, s1) = Cont (ent', nx', s')"
    by (auto split: Flow.splits)
  from resolveX_Cont [OF step] have a: "ext {velocity ent} s s1" "hides ent ent1" by auto
  from Cons.IH [OF rest] have b: "ext {velocity ent1} s1 s'" "hides ent1 ent'" by auto
  from a have "velocity ent1 = velocity ent" by (auto dest: hides_fields)
  with b have b': "ext {velocity ent} s1 s'" by simp
  from ext_trans [OF a(1) b'] hides_trans [OF a(2) b(2)] show ?case by simp
qed

lemma forOf_resolveY_Cont:
  "forOf (resolveY rect) os (ent, ny, g, s) = Cont (ent', ny', g', s') \<Longrightarrow>
     ext {velocity ent} s s' \<and> hides ent ent'"
proof (induction os arbitrary: ent ny g s)
  case Nil
  then show ?case by simp
next
  case (Cons other os)
  from Cons.prems obtain ent1 ny1 g1 s1 where
    step: "resolveY rect other (ent, ny, g, s) = Cont (ent1, ny1, g1, s1)" and
    rest: "forOf (resolveY rect) os (ent1, ny1, g1, s1) = Cont (ent', ny', g', s')"
    by (auto split: Flow.splits)
  from resolveY_Cont [OF step] have a: "ext {velocity ent} s s1" "hides ent ent1" by auto
  from Cons.IH [OF rest] have b: "ext {velocity ent1} s1 s'" "hides ent1 ent'" by auto
  from a have "velocity ent1 = velocity ent" by (auto dest: hides_fields)
  with b have b': "ext {velocity ent} s1 s'" by simp
  from ext_trans [OF a(1) b'] hides_trans [OF a(2) b(2)] show ?case by simp
qed

lemma clampX_ext:
  "clampX f ent s = (ent1, nx, s1) \<Longrightarrow> ext {velocity ent} s s1 \<and> hides ent ent1"
  by (auto simp: clampX_def Let_def ext_def split: if_splits)

lemma moveX_Cont:
  assumes "moveX f ent s = Cont (ent', s')"
  shows "ext {pos ent, velocity ent} s s' \<and> hides ent ent'"
proof -
  obtain ent1 nx1 s1 where cl: "clampX f ent s = (ent1, nx1, s1)"
    by (cases "clampX f ent s") auto
  obtain r s2 where al: "alloc \<lparr>x = nx1, y = y (heap s1 (pos ent))\<rparr> s1 = (r, s2)"
    by (cases "alloc \<lparr>x = nx1, y = y (heap s1 (pos ent))\<rparr> s1") auto
  from clampX_ext [OF cl] have e1: "ext {velocity ent} s s1" and h1: "hides ent ent1" by auto
  have e2: "ext {pos ent, velocity ent} s1 s2" by (rule ext_alloc [OF al])
  from assms obtain ent2 nx s3 where
    loop: "forOf (resolveX (ent1\<lparr>pos := r\<rparr>)) (currentEntities s2) (ent1, nx1, s2)
             = Cont (ent2, nx, s3)" and
    fin: "ent' = ent2" "s' = updX (pos ent) (\<lambda>_. nx) s3"
    by (auto simp: moveX_def cl al split: Flow.splits)
  from forOf_resolveX_Cont [OF loop] have e3: "ext {velocity ent1} s2 s3" and h2: "hides ent1 ent2"
    by auto
  from h1 have v1: "velocity ent1 = velocity ent" by (auto dest: hides_fields)
  have e4: "ext {pos ent, velocity ent} s3 s'" by (simp add: fin ext_updX)
  from e1 have e1': "ext {pos ent, velocity ent} s s1" by (auto intro: ext_mono)
  from e3 v1 have e3': "ext {pos ent, velocity ent} s2 s3" by (auto intro: ext_mono)
  from e1' e2 e3' e4 have "ext {pos ent, velocity ent} s s'" by (blast intro: ext_trans)
  moreover from h1 h2 fin have "hides ent ent'" by (auto intro: hides_trans)
  ultimately show ?thesis by simp
qed

lemma moveY_Cont:
  assumes "moveY f ent s = Cont (ent', g, s')"
  shows "ext {pos ent, velocity ent} s s' \<and> hides ent ent'"
proof -
  define nextY0 where "nextY0 = y (heap s (pos ent)) + y (heap s (velocity ent)) * deltaTime f"
  obtain r s1 where al: "alloc \<lparr>x = x (heap s (pos ent)), y = nextY0\<rparr> s = (r, s1)"
    by (cases "alloc \<lparr>x = x (heap s (pos ent)), y = nextY0\<rparr> s") auto
  have e1: "ext {pos ent, velocity ent} s s1" by (rule ext_alloc [OF al])
  from assms obtain ent2 ny s2 where
    loop: "forOf (resolveY (ent\<lparr>pos := r\<rparr>)) (currentEntities s1) (ent, nextY0, False, s1)
             = Cont (ent2, ny, g, s2)" and
    fin: "ent' = ent2" "s' = updY (pos ent) (\<lambda>_. ny) s2"
    by (auto simp: moveY_def Let_def al nextY0_def [symmetric] split: Flow.splits prod.splits)
  from forOf_resolveY_Cont [OF loop] have e2: "ext {velocity ent} s1 s2" and h2: "hides ent ent2"
    by auto
  have e3: "ext {pos ent, velocity ent} s2 s'" by (simp add: fin ext_updY)
  from e2 have e2': "ext {pos ent, velocity ent} s1 s2" by (auto intro: ext_mono)
  from e1 e2' e3 have "ext {pos ent, velocity ent} s s'" by (blast intro: ext_trans)
  with h2 fin show ?thesis by simp
qed

lemma offWorld_Cont: "offWorld ent s = Cont (ent', s') \<Longrightarrow> s' = s \<and> hides ent ent'"
  by (auto simp: offWorld_def split: if_splits)

lemma ext_jump: "velocity ent \<in> A \<Longrightarrow> ext A s (jump f ent g s)"
  by (simp add: jump_def ext_def)

lemma exitCheck_Cont: "exitCheck f ent s = Cont s' \<Longrightarrow> s' = s"
  by (auto simp: exitCheck_def split: if_splits option.splits)

lemma integrate_Cont:
  assumes "integrate f i ent s = Cont s'"
  shows "\<exists>e'. hides ent e' \<and> currentEntities s' = (currentEntities s)[i := e']
           \<and> newProjectiles s' = newProjectiles s \<and> nextRef s \<le> nextRef s'
           \<and> (\<forall>a. a < nextRef s \<longrightarrow> a \<notin> {pos ent, velocity ent} \<longrightarrow> heap s' a = heap s a)"
proof (cases "isStatic ent")
  case True
  with assms have "s' = store i ent s" by (simp add: integrate_def)
  then show ?thesis by (intro exI [of _ ent]) (simp add: store_def)
next
  case False
  let ?A = "{pos ent, velocity ent}"
  define s0 where "s0 = playerControl f ent (applyForces f ent s)"
  have e0: "ext ?A s s0"
    unfolding s0_def by (rule ext_trans [OF ext_applyForces ext_playerControl]) simp_all
  from assms False obtain ent3 s3 where mx: "moveX f ent s0 = Cont (ent3, s3)"
    by (auto simp: integrate_def resolveEntity_def s0_def split: Flow.splits)
  from assms False mx obtain ent4 g s4 where my: "moveY f ent3 s3 = Cont (ent4, g, s4)"
    by (auto simp: integrate_def resolveEntity_def s0_def [symmetric] split: Flow.splits)
  from assms False mx my obtain ent5 s5 where ow: "offWorld ent4 s4 = Cont (ent5, s5)"
    by (auto simp: integrate_def resolveEntity_def s0_def [symmetric] split: Flow.splits)
  from assms False mx my ow obtain s6 where
    ec: "exitCheck f ent5 (jump f ent5 g s5) = Cont s6" and fin: "s' = store i ent5 s6"
    by (auto simp: integrate_def resolveEntity_def s0_def [symmetric] split: Flow.splits)
  from moveX_Cont [OF mx] have e1: "ext ?A s0 s3" and h1: "hides ent ent3" by auto
  from hides_fields [OF h1] have f3: "pos ent3 = pos ent" "velocity ent3 = velocity ent" by auto
  from moveY_Cont [OF my] f3 have e2: "ext ?A s3 s4" and h2: "hides ent3 ent4" by auto
  from offWorld_Cont [OF ow] have e3: "s5 = s4" and h3: "hides ent4 ent5" by auto
  from h1 h2 h3 have h: "hides ent ent5" by (blast intro: hides_trans)
  from hides_fields [OF h] have "velocity ent5 \<in> ?A" by simp
  then have e4: "ext ?A s5 (jump f ent5 g s5)" by (rule ext_jump)
  from exitCheck_Cont [OF ec] have e5: "s6 = jump f ent5 g s5" .
  from e0 e1 e2 e3 e4 e5 have "ext ?A s s6" by (blast intro: ext_trans)
  with h fin show ?thesis
    by (intro exI [of _ ent5]) (auto simp: ext_def store_def)
qed

lemma patrolLogic_cases:
  assumes "patrolLogic ent s = (ent1, s1)"
  shows "(ent1 = ent \<and> s1 = s) \<or>
         (\<exists>v. ent1 = ent\<lparr>velocity := nextRef s\<rparr> \<and>
              s1 = s\<lparr>heap := (heap s)(nextRef s := v), nextRef := Suc (nextRef s)\<rparr>)"
  using assms
  by (auto simp: patrolLogic_def Let_def setVelocity_def alloc_def
      split: option.splits if_splits)

lemma turretLogic_cases:
  assumes "turretLogic f ent s = (ent2, s2)"
  shows "(ent2 = ent \<and> s2 = s) \<or>
         (ent2 = ent\<lparr>lastFireTime := Some (time f)\<rparr> \<and>
          s2 = s\<lparr>heap := (heap s)(nextRef s := fst (snd (turretAim ent s)),
                                  Suc (nextRef s) := snd (snd (turretAim ent s))),
                nextRef := Suc (Suc (nextRef s)),
                sfx := sfx s @ [SfxShoot],
                newProjectiles := newProjectiles s @
                  [newProjectile (Proj (idE ent) (time f)) (Suc (nextRef s)) (nextRef s)]\<rparr>)"
  using assms
  by (auto simp: turretLogic_def Let_def alloc_def playSfx_def split: prod.splits if_splits)

lemma stepRel_refl: "stepRel K s s"
  by (simp add: stepRel_def)

lemma stepRel_trans:
  assumes a: "stepRel K s s1" and b: "stepRel K' s1 s2"
  shows "stepRel (K \<union> K') s s2"
proof -
  let ?n = "length (currentEntities s)"
  from a b have n: "nextRef s \<le> nextRef s1" "nextRef s1 \<le> nextRef s2"
    and len: "length (currentEntities s1) = ?n" "length (currentEntities s2) = ?n"
    by (auto simp: stepRel_def)
  have ent: "(j \<notin> K \<union> K' \<longrightarrow> currentEntities s2 ! j = currentEntities s ! j)
           \<and> pos (currentEntities s2 ! j) = pos (currentEntities s ! j)
           \<and> idE (currentEntities s2 ! j) = idE (currentEntities s ! j)
           \<and> type (currentEntities s2 ! j) = type (currentEntities s ! j)
           \<and> (velocity (currentEntities s2 ! j) = velocity (currentEntities s ! j)
                \<or> (nextRef s \<le> velocity (currentEntities s2 ! j)
                    \<and> velocity (currentEntities s2 ! j) < nextRef s2))" if "j < ?n" for j
  proof -
    from a that have 1: "(j \<notin> K \<longrightarrow> currentEntities s1 ! j = currentEntities s ! j)
           \<and> pos (currentEntities s1 ! j) = pos (currentEntities s ! j)
           \<and> idE (currentEntities s1 ! j) = idE (currentEntities s ! j)
           \<and> type (currentEntities s1 ! j) = type (currentEntities s ! j)
           \<and> (velocity (currentEntities s1 ! j) = velocity (currentEntities s ! j)
                \<or> (nextRef s \<le> velocity (currentEntities s1 ! j)
                    \<and> velocity (currentEntities s1 ! j) < nextRef s1))"
      unfolding stepRel_def by blast
    from b that len have 2: "(j \<notin> K' \<longrightarrow> currentEntities s2 ! j = currentEntities s1 ! j)
           \<and> pos (currentEntities s2 ! j) = pos (currentEntities s1 ! j)
           \<and> idE (currentEntities s2 ! j) = idE (currentEntities s1 ! j)
           \<and> type (currentEntities s2 ! j) = type (currentEntities s1 ! j)
           \<and> (velocity (currentEntities s2 ! j) = velocity (currentEntities s1 ! j)
                \<or> (nextRef s1 \<le> velocity (currentEntities s2 ! j)
                    \<and> velocity (currentEntities s2 ! j) < nextRef s2))"
      unfolding stepRel_def by simp
    from 1 2 n show ?thesis by auto
  qed
  have hp: "heap s2 c = heap s c"
    if c: "c < nextRef s"
      and av: "\<forall>k. k \<in> K \<union> K' \<longrightarrow> k < ?n \<longrightarrow>
                c \<noteq> pos (currentEntities s ! k) \<and> c \<noteq> velocity (currentEntities s ! k)" for c
  proof -
    from a c av have 1: "heap s1 c = heap s c" unfolding stepRel_def by blast
    have "c \<noteq> pos (currentEntities s1 ! k) \<and> c \<noteq> velocity (currentEntities s1 ! k)"
      if k: "k \<in> K'" "k < ?n" for k
    proof -
      from a k have "pos (currentEntities s1 ! k) = pos (currentEntities s ! k)"
        and "velocity (currentEntities s1 ! k) = velocity (currentEntities s ! k)
                \<or> nextRef s \<le> velocity (currentEntities s1 ! k)"
        unfolding stepRel_def by auto
      with av k c show ?thesis by auto
    qed
    with b c n len have "heap s2 c = heap s1 c" unfolding stepRel_def by simp
    with 1 show ?thesis by simp
  qed
  from a obtain ps where ps: "newProjectiles s1 = newProjectiles s @ ps"
    "\<forall>p. p \<in> set ps \<longrightarrow> type p = PROJECTILE \<and> nextRef s \<le> pos p \<and> pos p < nextRef s1
                 \<and> nextRef s \<le> velocity p \<and> velocity p < nextRef s1"
    unfolding stepRel_def by blast
  from b obtain qs where qs: "newProjectiles s2 = newProjectiles s1 @ qs"
    "\<forall>p. p \<in> set qs \<longrightarrow> type p = PROJECTILE \<and> nextRef s1 \<le> pos p \<and> pos p < nextRef s2
                 \<and> nextRef s1 \<le> velocity p \<and> velocity p < nextRef s2"
    unfolding stepRel_def by blast
  from ps qs n have pr: "newProjectiles s2 = newProjectiles s @ (ps @ qs)
           \<and> (\<forall>p. p \<in> set (ps @ qs) \<longrightarrow> type p = PROJECTILE
                 \<and> nextRef s \<le> pos p \<and> pos p < nextRef s2
                 \<and> nextRef s \<le> velocity p \<and> velocity p < nextRef s2)"
    by fastforce
  show ?thesis
    unfolding stepRel_def
  proof (intro conjI allI impI)
    show "\<exists>ps. newProjectiles s2 = newProjectiles s @ ps
           \<and> (\<forall>p. p \<in> set ps \<longrightarrow> type p = PROJECTILE
                 \<and> nextRef s \<le> pos p \<and> pos p < nextRef s2
                 \<and> nextRef s \<le> velocity p \<and> velocity p < nextRef s2)"
      using pr by blast
  qed (use n len ent hp in auto)
qed

lemma processEntity_Cont:
  assumes pe: "processEntity f i s = Cont s'"
  shows "\<exists>e' ps.
           currentEntities s' = (currentEntities s)[i := e']
           \<and> pos e' = pos (currentEntities s ! i)
           \<and> idE e' = idE (currentEntities s ! i)
           \<and> type e' = type (currentEntities s ! i)
           \<and> (velocity e' = velocity (currentEntities s ! i)
                \<or> (velocity e' = nextRef s \<and> nextRef s < nextRef s'
                    \<and> (\<forall>p. p \<in> set ps \<longrightarrow> nextRef s < pos p \<and> nextRef s < velocity p)))
           \<and> nextRef s \<le> nextRef s'
           \<and> newProjectiles s' = newProjectiles s @ ps
           \<and> (\<forall>p. p \<in> set ps \<longrightarrow> type p = PROJECTILE
                 \<and> nextRef s \<le> pos p \<and> pos p < nextRef s'
                 \<and> nextRef s \<le> velocity p \<and> velocity p < nextRef s')
           \<and> (\<forall>c. c < nextRef s \<longrightarrow> c \<noteq> pos (currentEntities s ! i)
                 \<longrightarrow> c \<noteq> velocity (currentEntities s ! i) \<longrightarrow> heap s' c = heap s c)"
proof -
  let ?E = "currentEntities s ! i"
  obtain ent1 s1 where pl: "patrolLogic ?E s = (ent1, s1)" by (cases "patrolLogic ?E s") auto
  obtain ent2 s2 where tl: "turretLogic f ent1 s1 = (ent2, s2)"
    by (cases "turretLogic f ent1 s1") auto
  from pe pl tl have ig: "integrate f i ent2 s2 = Cont s'" by (simp add: processEntity_def)
  from integrate_Cont [OF ig] obtain e' where
    h: "hides ent2 e'" and cur: "currentEntities s' = (currentEntities s2)[i := e']"
    and np: "newProjectiles s' = newProjectiles s2" and nr: "nextRef s2 \<le> nextRef s'"
    and hp: "\<forall>a. a < nextRef s2 \<longrightarrow> a \<notin> {pos ent2, velocity ent2} \<longrightarrow> heap s' a = heap s2 a"
    by blast
  from hides_fields [OF h] have f2: "pos e' = pos ent2" "velocity e' = velocity ent2"
    "idE e' = idE ent2" "type e' = type ent2" by auto
  from patrolLogic_cases [OF pl] have p1:
    "pos ent1 = pos ?E \<and> idE ent1 = idE ?E \<and> type ent1 = type ?E
     \<and> (velocity ent1 = velocity ?E \<or> velocity ent1 = nextRef s \<and> nextRef s < nextRef s1)
     \<and> nextRef s \<le> nextRef s1
     \<and> currentEntities s1 = currentEntities s \<and> newProjectiles s1 = newProjectiles s
     \<and> (\<forall>c. c < nextRef s \<longrightarrow> heap s1 c = heap s c)"
    by auto
  from turretLogic_cases [OF tl] have p2:
    "pos ent2 = pos ent1 \<and> idE ent2 = idE ent1 \<and> type ent2 = type ent1
     \<and> velocity ent2 = velocity ent1
     \<and> nextRef s1 \<le> nextRef s2
     \<and> currentEntities s2 = currentEntities s1
     \<and> (\<forall>c. c < nextRef s1 \<longrightarrow> heap s2 c = heap s1 c)
     \<and> (\<exists>ps. newProjectiles s2 = newProjectiles s1 @ ps
           \<and> (\<forall>p. p \<in> set ps \<longrightarrow> type p = PROJECTILE
                 \<and> nextRef s1 \<le> pos p \<and> pos p < nextRef s2
                 \<and> nextRef s1 \<le> velocity p \<and> velocity p < nextRef s2))"
    by (auto simp: newProjectile_def)
  from p2 obtain ps where ps: "newProjectiles s2 = newProjectiles s1 @ ps"
    "\<forall>p. p \<in> set ps \<longrightarrow> type p = PROJECTILE
                 \<and> nextRef s1 \<le> pos p \<and> pos p < nextRef s2
                 \<and> nextRef s1 \<le> velocity p \<and> velocity p < nextRef s2"
    by blast
  have D: "heap s' c = heap s c"
    if "c < nextRef s" and "c \<noteq> pos ?E" and "c \<noteq> velocity ?E" for c
  proof -
    from that p1 have 1: "heap s1 c = heap s c" by simp
    from that p1 p2 have 2: "heap s2 c = heap s1 c" by simp
    from that p1 p2 have "c < nextRef s2" "c \<notin> {pos ent2, velocity ent2}" by auto
    with hp have "heap s' c = heap s2 c" by blast
    with 1 2 show ?thesis by simp
  qed
  have V: "velocity e' = velocity ?E
           \<or> (velocity e' = nextRef s \<and> nextRef s < nextRef s'
               \<and> (\<forall>p. p \<in> set ps \<longrightarrow> nextRef s < pos p \<and> nextRef s < velocity p))"
    using f2 p1 p2 nr ps(2) by fastforce
  have P: "\<forall>p. p \<in> set ps \<longrightarrow> type p = PROJECTILE
                 \<and> nextRef s \<le> pos p \<and> pos p < nextRef s'
                 \<and> nextRef s \<le> velocity p \<and> velocity p < nextRef s'"
    using ps(2) p1 nr by fastforce
  show ?thesis
    using cur f2 p1 p2 nr np ps(1) D V P
    by (intro exI [of _ e'] exI [of _ ps]) simp
qed

lemma stepRel_processEntity:
  assumes pe: "processEntity f i s = Cont s'" and i: "i < length (currentEntities s)"
  shows "stepRel {i} s s'"
proof -
  from processEntity_Cont [OF pe] obtain e' ps where
    cur: "currentEntities s' = (currentEntities s)[i := e']"
    and fl: "pos e' = pos (currentEntities s ! i)" "idE e' = idE (currentEntities s ! i)"
      "type e' = type (currentEntities s ! i)"
    and V: "velocity e' = velocity (currentEntities s ! i)
                \<or> (velocity e' = nextRef s \<and> nextRef s < nextRef s'
                    \<and> (\<forall>p. p \<in> set ps \<longrightarrow> nextRef s < pos p \<and> nextRef s < velocity p))"
    and A: "nextRef s \<le> nextRef s'"
    and np: "newProjectiles s' = newProjectiles s @ ps"
    and P: "\<forall>p. p \<in> set ps \<longrightarrow> type p = PROJECTILE
                 \<and> nextRef s \<le> pos p \<and> pos p < nextRef s'
                 \<and> nextRef s \<le> velocity p \<and> velocity p < nextRef s'"
    and D: "\<forall>c. c < nextRef s \<longrightarrow> c \<noteq> pos (currentEntities s ! i)
                 \<longrightarrow> c \<noteq> velocity (currentEntities s ! i) \<longrightarrow> heap s' c = heap s c"
    by blast
  have C: "(j \<notin> {i} \<longrightarrow> currentEntities s' ! j = currentEntities s ! j)
           \<and> pos (currentEntities s' ! j) = pos (currentEntities s ! j)
           \<and> idE (currentEntities s' ! j) = idE (currentEntities s ! j)
           \<and> type (currentEntities s' ! j) = type (currentEntities s ! j)
           \<and> (velocity (currentEntities s' ! j) = velocity (currentEntities s ! j)
                \<or> (nextRef s \<le> velocity (currentEntities s' ! j)
                    \<and> velocity (currentEntities s' ! j) < nextRef s'))"
    if "j < length (currentEntities s)" for j
  proof (cases "j = i")
    case True
    with cur i have "currentEntities s' ! j = e'" by simp
    with True fl V show ?thesis by auto
  next
    case False
    with cur have "currentEntities s' ! j = currentEntities s ! j" by simp
    with False show ?thesis by simp
  qed
  have E: "\<exists>ps. newProjectiles s' = newProjectiles s @ ps
           \<and> (\<forall>p. p \<in> set ps \<longrightarrow> type p = PROJECTILE
                 \<and> nextRef s \<le> pos p \<and> pos p < nextRef s'
                 \<and> nextRef s \<le> velocity p \<and> velocity p < nextRef s')"
    using np P by blast
  have B: "length (currentEntities s') = length (currentEntities s)" using cur by simp
  show ?thesis
    unfolding stepRel_def using A B C D E i by auto
qed

lemma stepRel_mono: "stepRel K s s' \<Longrightarrow> K \<subseteq> K' \<Longrightarrow> stepRel K' s s'"
  unfolding stepRel_def by (auto simp: subset_iff)

lemma stepRel_physicsSubstep:
  assumes "physicsSubstep f ixs s = Cont s'" and "\<forall>i. i \<in> set ixs \<longrightarrow> i < length (currentEntities s)"
  shows "stepRel (set ixs) s s'"
  using assms
proof (induction ixs arbitrary: s)
  case Nil
  then show ?case by (simp add: physicsSubstep_def stepRel_refl)
next
  case (Cons i ixs)
  from Cons.prems(1) obtain s1 where
    st: "processEntity f i s = Cont s1" and rest: "physicsSubstep f ixs s1 = Cont s'"
    by (auto simp: physicsSubstep_def split: Flow.splits)
  from Cons.prems(2) have i: "i < length (currentEntities s)" by simp
  from stepRel_processEntity [OF st i] have a: "stepRel {i} s s1" .
  then have "length (currentEntities s1) = length (currentEntities s)" by (simp add: stepRel_def)
  with Cons.prems(2) have "\<forall>k. k \<in> set ixs \<longrightarrow> k < length (currentEntities s1)" by simp
  from Cons.IH [OF rest this] have b: "stepRel (set ixs) s1 s'" .
  from stepRel_trans [OF a b] show ?case by simp
qed

lemma apart_nth:
  assumes "apart s" and "i < length (currentEntities s)" and "j < length (currentEntities s)"
    and "i \<noteq> j"
  shows "pos (currentEntities s ! j) \<noteq> pos (currentEntities s ! i)
       \<and> pos (currentEntities s ! j) \<noteq> velocity (currentEntities s ! i)"
proof -
  let ?cur = "currentEntities s"
  from assms(1) have d: "distinct (map pos ?cur)"
    and disj: "set (map pos ?cur) \<inter> set (map velocity ?cur) = {}"
    by (auto simp: apart_def cells_def)
  from d assms(2-4) have "pos (?cur ! j) \<noteq> pos (?cur ! i)"
    by (simp add: distinct_conv_nth)
  moreover from assms(2,3) have "pos (?cur ! j) \<in> set (map pos ?cur)"
    "velocity (?cur ! i) \<in> set (map velocity ?cur)" by simp_all
  with disj have "pos (?cur ! j) \<noteq> velocity (?cur ! i)" by (metis disjoint_iff)
  ultimately show ?thesis by simp
qed

lemma apart_pending:
  assumes "apart s" and "p \<in> set (newProjectiles s)" and "e \<in> set (currentEntities s)"
  shows "pos p \<noteq> pos e \<and> pos p \<noteq> velocity e \<and> velocity p \<noteq> pos e \<and> velocity p \<noteq> velocity e"
  using assms by (auto simp: apart_def cells_def)

lemma distinct_swap:
  "distinct (as @ bs @ cs @ ds) \<longleftrightarrow> distinct (as @ cs @ bs @ ds)"
  by auto

lemma processEntity_new:
  assumes pe: "processEntity f i s = Cont s'"
  shows "newProjectiles s' = newProjectiles s
         \<or> (\<exists>p. newProjectiles s' = newProjectiles s @ [p] \<and> pos p \<noteq> velocity p)"
proof -
  let ?E = "currentEntities s ! i"
  obtain ent1 s1 where pl: "patrolLogic ?E s = (ent1, s1)" by (cases "patrolLogic ?E s") auto
  obtain ent2 s2 where tl: "turretLogic f ent1 s1 = (ent2, s2)"
    by (cases "turretLogic f ent1 s1") auto
  from pe pl tl have ig: "integrate f i ent2 s2 = Cont s'" by (simp add: processEntity_def)
  from integrate_Cont [OF ig] have np: "newProjectiles s' = newProjectiles s2" by auto
  from patrolLogic_cases [OF pl] have p1: "newProjectiles s1 = newProjectiles s" by auto
  from turretLogic_cases [OF tl] p1 np show ?thesis
    by (auto simp: newProjectile_def)
qed

lemma processEntity_inv:
  assumes pe: "processEntity f i s = Cont s'" and i: "i < length (currentEntities s)"
    and al: "allocated s" and ap: "apart s"
  shows "allocated s' \<and> apart s'"
proof -
  let ?cur = "currentEntities s"
  let ?np = "newProjectiles s"
  from processEntity_Cont [OF pe] obtain e' ps where
    cur: "currentEntities s' = ?cur[i := e']"
    and fl: "pos e' = pos (?cur ! i)"
    and V: "velocity e' = velocity (?cur ! i)
                \<or> (velocity e' = nextRef s \<and> nextRef s < nextRef s'
                    \<and> (\<forall>p. p \<in> set ps \<longrightarrow> nextRef s < pos p \<and> nextRef s < velocity p))"
    and A: "nextRef s \<le> nextRef s'"
    and np: "newProjectiles s' = ?np @ ps"
    and P: "\<forall>p. p \<in> set ps \<longrightarrow> type p = PROJECTILE
                 \<and> nextRef s \<le> pos p \<and> pos p < nextRef s'
                 \<and> nextRef s \<le> velocity p \<and> velocity p < nextRef s'"
    by blast
  from al i have Ei: "pos (?cur ! i) < nextRef s" "velocity (?cur ! i) < nextRef s"
    by (auto simp: allocated_def)
  from al have oldc: "\<forall>e. e \<in> set ?cur \<longrightarrow> pos e < nextRef s \<and> velocity e < nextRef s"
    and oldp: "\<forall>p. p \<in> set ?np \<longrightarrow> pos p < nextRef s \<and> velocity p < nextRef s"
    by (auto simp: allocated_def)
  have sub: "set (?cur[i := e']) \<subseteq> insert e' (set ?cur)" by (rule set_update_subset_insert)
  have "allocated s'"
    unfolding allocated_def
  proof (intro conjI allI impI)
    fix e assume "e \<in> set (currentEntities s')"
    with cur sub have "e = e' \<or> e \<in> set ?cur" by auto
    with oldc fl V Ei A show "pos e < nextRef s'" "velocity e < nextRef s'" by fastforce+
  next
    fix p assume "p \<in> set (newProjectiles s')"
    with np have "p \<in> set ?np \<or> p \<in> set ps" by auto
    with oldp P A show "pos p < nextRef s'" "velocity p < nextRef s'" by fastforce+
  qed
  moreover have "apart s'"
  proof -
    from processEntity_new [OF pe] np
    have psd: "ps = [] \<or> (\<exists>p. ps = [p] \<and> pos p \<noteq> velocity p)" by auto
    have mp: "map pos (?cur[i := e']) = map pos ?cur"
      using fl i by (simp add: map_update list_update_same_conv)
    have mv: "map velocity (?cur[i := e']) = (map velocity ?cur)[i := velocity e']"
      by (simp add: map_update)
    let ?A = "map pos ?cur @ map pos ?np"
    let ?old = "?A @ map velocity ?cur @ map velocity ?np"
    let ?k = "length ?A + i"
    let ?PS = "map pos ps @ map velocity ps"
    from ap have d0: "distinct ?old"
      by (simp add: apart_def cells_def)
    have fresh: "\<forall>c. c \<in> set ?old \<longrightarrow> c < nextRef s"
      using oldc oldp by auto
    have k: "?old ! ?k = velocity (?cur ! i)"
      using i by (simp add: nth_append)
    have upd: "?old[?k := velocity e'] = ?A @ (map velocity ?cur)[i := velocity e'] @ map velocity ?np"
      using i by (simp add: list_update_append)
    have vnew: "velocity e' = ?old ! ?k \<or> velocity e' \<notin> set ?old"
    proof (cases "velocity e' = velocity (?cur ! i)")
      case True
      with k show ?thesis by simp
    next
      case False
      with V have "velocity e' = nextRef s" by blast
      moreover have "nextRef s \<notin> set ?old" using fresh by blast
      ultimately show ?thesis by simp
    qed
    have d1: "distinct (?old[?k := velocity e'])"
    proof (rule distinct_list_update [OF d0])
      from vnew show "velocity e' \<notin> set ?old - {?old ! ?k}" by blast
    qed
    have psge: "\<forall>c. c \<in> set ?PS \<longrightarrow> nextRef s \<le> c"
      using P by auto
    have psd': "distinct ?PS" using psd by auto
    have vps: "velocity e' \<notin> set ?PS"
    proof (cases "velocity e' = velocity (?cur ! i)")
      case True
      with Ei psge show ?thesis by fastforce
    next
      case False
      with V have "\<forall>p. p \<in> set ps \<longrightarrow> nextRef s < pos p \<and> nextRef s < velocity p"
        and "velocity e' = nextRef s" by auto
      then show ?thesis by fastforce
    qed
    have dis: "set (?old[?k := velocity e']) \<inter> set ?PS = {}"
    proof -
      have "set (?old[?k := velocity e']) \<subseteq> insert (velocity e') (set ?old)"
        by (rule set_update_subset_insert)
      moreover have "set ?old \<inter> set ?PS = {}"
        using fresh psge by (meson disjoint_iff not_le)
      ultimately show ?thesis using vps by blast
    qed
    from d1 psd' dis have "distinct (?old[?k := velocity e'] @ ?PS)"
      by (simp only: distinct_append)
    then have "distinct ((?A @ (map velocity ?cur)[i := velocity e'] @ map velocity ?np) @ ?PS)"
      by (simp only: upd)
    then have "distinct (?A @ ((map velocity ?cur)[i := velocity e'] @ map velocity ?np)
                 @ map pos ps @ map velocity ps)"
      by (simp only: append_assoc)
    then have "distinct (?A @ map pos ps @ ((map velocity ?cur)[i := velocity e'] @ map velocity ?np)
                 @ map velocity ps)"
      by (rule iffD1 [OF distinct_swap])
    then show ?thesis
      by (simp add: apart_def cells_def cur np mp mv)
  qed
  ultimately show ?thesis by simp
qed

lemma physicsSubstep_inv:
  assumes "physicsSubstep f ixs s = Cont s'"
    and "\<forall>i. i \<in> set ixs \<longrightarrow> i < length (currentEntities s)"
    and "allocated s" and "apart s"
  shows "allocated s' \<and> apart s'"
  using assms
proof (induction ixs arbitrary: s)
  case Nil
  then show ?case by (simp add: physicsSubstep_def)
next
  case (Cons i ixs)
  from Cons.prems(1) obtain s1 where
    st: "processEntity f i s = Cont s1" and rest: "physicsSubstep f ixs s1 = Cont s'"
    by (auto simp: physicsSubstep_def split: Flow.splits)
  from Cons.prems(2) have i: "i < length (currentEntities s)" by simp
  from processEntity_inv [OF st i Cons.prems(3,4)] have inv1: "allocated s1" "apart s1" by auto
  from stepRel_processEntity [OF st i]
  have "length (currentEntities s1) = length (currentEntities s)" by (simp add: stepRel_def)
  with Cons.prems(2) have "\<forall>k. k \<in> set ixs \<longrightarrow> k < length (currentEntities s1)" by simp
  from Cons.IH [OF rest this inv1] show ?case .
qed

lemma physicsSubstep_append:
  "physicsSubstep f (as @ bs) s =
     (case physicsSubstep f as s of Cont s1 \<Rightarrow> physicsSubstep f bs s1
      | Return out r \<Rightarrow> Return out r)"
  unfolding physicsSubstep_def
  by (induction as arbitrary: s) (auto split: Flow.splits)

lemma upt_split: "j < i \<Longrightarrow> [0..<i] = [0..<Suc j] @ [Suc j..<i]"
  by (metis Suc_leI upt_add_eq_append le_add_diff_inverse zero_le)

lemma processEntity_spawn:
  assumes pe: "processEntity f i s = Cont s1" and i: "i < length (currentEntities s)"
    and al: "allocated s"
  shows "\<forall>p. p \<in> set (drop (length (newProjectiles s)) (newProjectiles s1)) \<longrightarrow>
           heap s1 (velocity p) = fst (aimOf i s) \<and> heap s1 (pos p) = snd (aimOf i s)"
proof -
  let ?E = "currentEntities s ! i"
  obtain ent1 sA where pl: "patrolLogic ?E s = (ent1, sA)" by (cases "patrolLogic ?E s") auto
  obtain ent2 s2 where tl: "turretLogic f ent1 sA = (ent2, s2)"
    by (cases "turretLogic f ent1 sA") auto
  from pe pl tl have ig: "integrate f i ent2 s2 = Cont s1" by (simp add: processEntity_def)
  from integrate_Cont [OF ig] have np: "newProjectiles s1 = newProjectiles s2"
    and hp: "\<forall>a. a < nextRef s2 \<longrightarrow> a \<notin> {pos ent2, velocity ent2} \<longrightarrow> heap s1 a = heap s2 a"
    by auto
  from al i have Ei: "pos ?E < nextRef s" "velocity ?E < nextRef s"
    by (auto simp: allocated_def)
  from patrolLogic_cases [OF pl] Ei have p1:
    "pos ent1 < nextRef sA \<and> velocity ent1 < nextRef sA \<and> newProjectiles sA = newProjectiles s"
    by auto
  have aim: "aimOf i s = snd (turretAim ent1 sA)" by (simp add: aimOf_def pl)
  from turretLogic_cases [OF tl] show ?thesis
  proof
    assume "ent2 = ent1 \<and> s2 = sA"
    with np p1 show ?thesis by simp
  next
    assume fired: "ent2 = ent1\<lparr>lastFireTime := Some (time f)\<rparr> \<and>
          s2 = sA\<lparr>heap := (heap sA)(nextRef sA := fst (snd (turretAim ent1 sA)),
                                  Suc (nextRef sA) := snd (snd (turretAim ent1 sA))),
                nextRef := Suc (Suc (nextRef sA)),
                sfx := sfx sA @ [SfxShoot],
                newProjectiles := newProjectiles sA @
                  [newProjectile (Proj (idE ent1) (time f)) (Suc (nextRef sA)) (nextRef sA)]\<rparr>"
    let ?p = "newProjectile (Proj (idE ent1) (time f)) (Suc (nextRef sA)) (nextRef sA)"
    from fired np p1 have d: "drop (length (newProjectiles s)) (newProjectiles s1) = [?p]"
      by simp
    from fired p1 have "nextRef sA < nextRef s2" "nextRef sA \<notin> {pos ent2, velocity ent2}"
      "Suc (nextRef sA) < nextRef s2" "Suc (nextRef sA) \<notin> {pos ent2, velocity ent2}"
      by auto
    with hp have "heap s1 (nextRef sA) = heap s2 (nextRef sA)"
      "heap s1 (Suc (nextRef sA)) = heap s2 (Suc (nextRef sA))" by blast+
    with fired have "heap s1 (nextRef sA) = fst (snd (turretAim ent1 sA))"
      "heap s1 (Suc (nextRef sA)) = snd (snd (turretAim ent1 sA))" by simp_all
    with d aim show ?thesis by (simp add: newProjectile_def)
  qed
qed


lemma mapEntities_fields:
  "mapEntities es w = (r, w') \<Longrightarrow>
     map sizeE r = map sizeE es \<and> map type r = map type es \<and> map pos r = map pos es
     \<and> nextRef w \<le> nextRef w' \<and> (\<forall>a. a < nextRef w \<longrightarrow> heap w' a = heap w a)"
proof (induction es arbitrary: w r w')
  case Nil
  then show ?case by simp
next
  case (Cons e es)
  obtain v w1 where v: "(case velocity e of Some a \<Rightarrow> (a, w) | None \<Rightarrow> alloc \<lparr>x = 0, y = 0\<rparr> w) = (v, w1)"
    by (cases "case velocity e of Some a \<Rightarrow> (a, w) | None \<Rightarrow> alloc \<lparr>x = 0, y = 0\<rparr> w") auto
  obtain rest w2 where m: "mapEntities es w1 = (rest, w2)" by (cases "mapEntities es w1") auto
  from Cons.prems v m have r: "r = instantiate e v (heap w1) # rest" "w' = w2" by simp_all
  from v have w1: "nextRef w \<le> nextRef w1 \<and> (\<forall>a. a < nextRef w \<longrightarrow> heap w1 a = heap w a)"
    by (auto simp: alloc_def split: option.splits)
  from Cons.IH [OF m] r w1 show ?case by (auto simp: instantiate_def)
qed

lemma forOf_resolveX_filter:
  "forOf (resolveX rect) (filter isVisible os) st = forOf (resolveX rect) os st"
proof (induction os arbitrary: st)
  case Nil
  then show ?case by simp
next
  case (Cons other os)
  show ?case
  proof (cases "isVisible other")
    case True
    with Cons.IH show ?thesis by (simp split: Flow.splits)
  next
    case False
    then have "resolveX rect other st = Cont st" by (simp add: resolveX_def split: prod.splits)
    with False Cons.IH show ?thesis by simp
  qed
qed

lemma forOf_resolveY_filter:
  "forOf (resolveY rect) (filter isVisible os) st = forOf (resolveY rect) os st"
proof (induction os arbitrary: st)
  case Nil
  then show ?case by simp
next
  case (Cons other os)
  show ?case
  proof (cases "isVisible other")
    case True
    with Cons.IH show ?thesis by (simp split: Flow.splits)
  next
    case False
    then have "resolveY rect other st = Cont st" by (simp add: resolveY_def split: prod.splits)
    with False Cons.IH show ?thesis by simp
  qed
qed

lemma gameLoop_Committed_refs:
  assumes "gameLoop t ks w = (Committed, w')"
  shows "\<exists>sN. physicsSubstep (frameOf t ks w) [0..<length (entitiesRef w)] (enter w) = Cont sN
             \<and> entitiesRef w' = activeEntities sN \<and> heap w' = heap sN
             \<and> nextRef w' = nextRef sN"
  using assms
  by (auto simp: gameLoop_def Let_def leave_def split: if_splits Flow.splits Outcome.splits)

lemma disjoint_subsets:
  "A \<subseteq> A' \<Longrightarrow> B \<subseteq> B' \<Longrightarrow> A' \<inter> B' = {} \<Longrightarrow> A \<inter> B = {}"
  by blast

lemma distinct_cells_filter:
  assumes "distinct (cells (es @ ps))"
  shows "distinct (cells (filter K es @ ps))"
proof -
  have sp: "set (map pos (filter K es)) \<subseteq> set (map pos es)"
    and sv: "set (map velocity (filter K es)) \<subseteq> set (map velocity es)"
    by auto
  from assms have d: "distinct (map pos es)" "distinct (map velocity es)"
    "distinct (map pos ps)" "distinct (map velocity ps)"
    "set (map pos es) \<inter> set (map pos ps) = {}"
    "set (map pos es) \<inter> set (map velocity es) = {}"
    "set (map pos es) \<inter> set (map velocity ps) = {}"
    "set (map pos ps) \<inter> set (map velocity es) = {}"
    "set (map pos ps) \<inter> set (map velocity ps) = {}"
    "set (map velocity es) \<inter> set (map velocity ps) = {}"
    by (auto simp: cells_def)
  from d(1,2) have f: "distinct (map pos (filter K es))" "distinct (map velocity (filter K es))"
    by (simp_all add: distinct_map_filter)
  have g: "set (map pos (filter K es)) \<inter> set (map pos ps) = {}"
    "set (map pos (filter K es)) \<inter> set (map velocity (filter K es)) = {}"
    "set (map pos (filter K es)) \<inter> set (map velocity ps) = {}"
    "set (map pos ps) \<inter> set (map velocity (filter K es)) = {}"
    "set (map velocity (filter K es)) \<inter> set (map velocity ps) = {}"
    by (rule disjoint_subsets [OF sp subset_refl d(5)],
        rule disjoint_subsets [OF sp sv d(6)],
        rule disjoint_subsets [OF sp subset_refl d(7)],
        rule disjoint_subsets [OF subset_refl sv d(8)],
        rule disjoint_subsets [OF sv subset_refl d(10)])
  from d(3,4,9) f g show ?thesis
    by (simp add: cells_def Int_Un_distrib Int_Un_distrib2)
qed

lemma gameLoop_inv:
  assumes gl: "gameLoop t ks w = (Committed, w')"
    and al: "allocated (enter w)" and ap: "apart (enter w)"
  shows "allocated (enter w') \<and> apart (enter w')"
proof -
  from gameLoop_Committed_refs [OF gl] obtain sN where
    run: "physicsSubstep (frameOf t ks w) [0..<length (entitiesRef w)] (enter w) = Cont sN"
    and es: "entitiesRef w' = activeEntities sN" and nr: "nextRef w' = nextRef sN"
    by blast
  have ix: "\<forall>i. i \<in> set [0..<length (entitiesRef w)] \<longrightarrow> i < length (currentEntities (enter w))"
    by (simp add: enter_def)
  from physicsSubstep_inv [OF run ix al ap] have inv: "allocated sN" "apart sN" by auto
  from inv(1) have "allocated (enter w')"
    by (auto simp: allocated_def enter_def es nr activeEntities_def)
  moreover from inv(2) have "apart (enter w')"
    by (simp add: apart_def enter_def es activeEntities_def distinct_cells_filter)
  ultimately show ?thesis by simp
qed

lemma mapEntities_cells:
  assumes "mapEntities es w = (r, w')"
    and "distinct (map pos es @ templateVelocities es)"
    and "\<forall>c. c \<in> set (map pos es @ templateVelocities es) \<longrightarrow> c < n"
    and "n \<le> nextRef w"
  shows "map pos r = map pos es \<and> distinct (map velocity r) \<and> nextRef w \<le> nextRef w'
       \<and> (\<forall>c. c \<in> set (map velocity r) \<longrightarrow>
             c \<in> set (templateVelocities es) \<or> (nextRef w \<le> c \<and> c < nextRef w'))"
  using assms
proof (induction es arbitrary: w r w')
  case Nil
  then show ?case by (simp add: templateVelocities_def)
next
  case (Cons e es)
  obtain v w1 where v: "(case velocity e of Some a \<Rightarrow> (a, w) | None \<Rightarrow> alloc \<lparr>x = 0, y = 0\<rparr> w) = (v, w1)"
    by (cases "case velocity e of Some a \<Rightarrow> (a, w) | None \<Rightarrow> alloc \<lparr>x = 0, y = 0\<rparr> w") auto
  obtain rest w2 where m: "mapEntities es w1 = (rest, w2)" by (cases "mapEntities es w1") auto
  from Cons.prems(1) v m have r: "r = instantiate e v (heap w1) # rest" "w' = w2" by simp_all
  have tv: "templateVelocities (e # es)
      = (case velocity e of Some a \<Rightarrow> [a] | None \<Rightarrow> []) @ templateVelocities es"
    by (simp add: templateVelocities_def)
  from Cons.prems(2) tv have d: "distinct (map pos es @ templateVelocities es)"
    by (auto split: option.splits)
  from Cons.prems(3) tv have b: "\<forall>c. c \<in> set (map pos es @ templateVelocities es) \<longrightarrow> c < n"
    by (auto split: option.splits)
  from v Cons.prems(4) have w1: "nextRef w \<le> nextRef w1" "n \<le> nextRef w1"
    by (auto simp: alloc_def split: option.splits)
  from Cons.IH [OF m d b w1(2)] have ih:
    "map pos rest = map pos es" "distinct (map velocity rest)" "nextRef w1 \<le> nextRef w2"
    "\<forall>c. c \<in> set (map velocity rest) \<longrightarrow>
             c \<in> set (templateVelocities es) \<or> (nextRef w1 \<le> c \<and> c < nextRef w2)"
    by auto
  have vcase: "(velocity e = Some v \<and> w1 = w) \<or>
               (velocity e = None \<and> v = nextRef w \<and> nextRef w1 = Suc (nextRef w))"
    using v by (auto simp: alloc_def split: option.splits)
  have vnot: "v \<notin> set (map velocity rest)"
  proof
    assume mem: "v \<in> set (map velocity rest)"
    from vcase show False
    proof
      assume a: "velocity e = Some v \<and> w1 = w"
      with Cons.prems(2) tv have "v \<notin> set (templateVelocities es)" by auto
      moreover from a Cons.prems(3) tv have "v < n" by auto
      ultimately show False using ih(4) mem w1(2) by fastforce
    next
      assume a: "velocity e = None \<and> v = nextRef w \<and> nextRef w1 = Suc (nextRef w)"
      from ih(4) mem have "v \<in> set (templateVelocities es) \<or> nextRef w1 \<le> v" by blast
      with a b Cons.prems(4) show False by fastforce
    qed
  qed
  have vin: "v \<in> set (templateVelocities (e # es)) \<or> (nextRef w \<le> v \<and> v < nextRef w')"
    using vcase tv r(2) ih(3) by auto
  have others: "\<forall>c. c \<in> set (map velocity rest) \<longrightarrow>
             c \<in> set (templateVelocities (e # es)) \<or> (nextRef w \<le> c \<and> c < nextRef w')"
    using ih(4) tv w1(1) r(2) by fastforce
  from ih vnot vin others r w1 show ?case
    by (simp add: instantiate_def)
qed

lemma setupLevel_inv:
  assumes wf: "wellFormedLevel level w"
  shows "allocated (enter (setupLevel level w)) \<and> apart (enter (setupLevel level w))"
proof -
  let ?es = "entities level"
  obtain p w1 where a1: "alloc (startPos level) w = (p, w1)" by (cases "alloc (startPos level) w") auto
  obtain v w2 where a2: "alloc \<lparr>x = 0, y = 0\<rparr> w1 = (v, w2)" by (cases "alloc \<lparr>x = 0, y = 0\<rparr> w1") auto
  obtain r w3 where m: "mapEntities ?es w2 = (r, w3)" by (cases "mapEntities ?es w2") auto
  have s: "setupLevel level w =
      w3\<lparr>entitiesRef := r @ [newPlayer p v], physicsRef := physics level, targetXRef := None\<rparr>"
    by (simp add: setupLevel_def a1 a2 m)
  from a1 a2 have pv: "p = nextRef w" "v = Suc (nextRef w)" "nextRef w2 = Suc (Suc (nextRef w))"
    by (auto simp: alloc_def)
  from wf have d: "distinct (map pos ?es @ templateVelocities ?es)"
    and b: "\<forall>c. c \<in> set (map pos ?es @ templateVelocities ?es) \<longrightarrow> c < nextRef w"
    by (auto simp: wellFormedLevel_def)
  from pv have n: "nextRef w \<le> nextRef w2" by simp
  from mapEntities_cells [OF m d b n] have f:
    "map pos r = map pos ?es" "distinct (map velocity r)" "nextRef w2 \<le> nextRef w3"
    "\<forall>c. c \<in> set (map velocity r) \<longrightarrow>
             c \<in> set (templateVelocities ?es) \<or> (nextRef w2 \<le> c \<and> c < nextRef w3)"
    by auto
  from d have dp: "distinct (map pos ?es)" and dv: "distinct (templateVelocities ?es)"
    and dj: "set (map pos ?es) \<inter> set (templateVelocities ?es) = {}"
    by auto
  have posb: "\<forall>c. c \<in> set (map pos r) \<longrightarrow> c < nextRef w" using f(1) b by auto
  have velb: "\<forall>c. c \<in> set (map velocity r) \<longrightarrow> (c < nextRef w \<or> nextRef w2 \<le> c) \<and> c < nextRef w3"
    using f(3,4) b pv by fastforce
  have pj: "set (map pos r) \<inter> set (map velocity r) = {}"
  proof (rule ccontr)
    assume "set (map pos r) \<inter> set (map velocity r) \<noteq> {}"
    then obtain c where c: "c \<in> set (map pos r)" "c \<in> set (map velocity r)" by blast
    from c(1) posb have "c < nextRef w" by blast
    with f(4) c(2) n have "c \<in> set (templateVelocities ?es)" by fastforce
    with c(1) f(1) dj show False by auto
  qed
  have al: "allocated (enter (setupLevel level w))"
    using posb velb pv f(3)
    by (auto simp: allocated_def enter_def s newPlayer_def)
  have "distinct (map pos r @ [p] @ map velocity r @ [v])"
    using dp f(1,2) pj posb velb pv by fastforce
  then have "apart (enter (setupLevel level w))"
    by (simp add: apart_def cells_def enter_def s newPlayer_def)
  with al show ?thesis by simp
qed

section \<open>Splitting a frame at one entity\<close>

lemma physicsSubstep_single:
  "physicsSubstep f [i] s = processEntity f i s"
  by (cases "processEntity f i s") (simp_all add: physicsSubstep_def)

lemma upt_around: "i < n \<Longrightarrow> [0..<n] = [0..<i] @ [i] @ [Suc i..<n]"
proof -
  assume a: "i < n"
  then have "[0..<n] = [0..<i] @ [i..<n]"
    by (metis le_add_diff_inverse less_imp_le_nat upt_add_eq_append zero_le)
  also from a have "[i..<n] = i # [Suc i..<n]" by (rule upt_conv_Cons)
  finally show ?thesis by simp
qed


lemma gameLoop_running:
  assumes "(gameState w = PLAYING \<or> (gameState w = EDITOR \<and> isEditorTesting w)) \<and> \<not> isPaused w"
  shows "gameLoop t ks w =
     (case physicsSubstep (frameOf t ks w) [0..<length (entitiesRef w)] (enter w) of
        Return Reset s \<Rightarrow> (LevelReset, resetLevel (leave s (w\<lparr>lastTimeRef := t\<rparr>)))
      | Return Complete s \<Rightarrow>
          (LevelComplete,
           if gameState w = EDITOR then (leave s (w\<lparr>lastTimeRef := t\<rparr>))\<lparr>isEditorTesting := False\<rparr>
           else leave s (w\<lparr>lastTimeRef := t\<rparr>))
      | Cont s \<Rightarrow>
          (Committed, (leave s (w\<lparr>lastTimeRef := t\<rparr>))\<lparr>entitiesRef := activeEntities s\<rparr>))"
  using assms by (auto simp: gameLoop_def Let_def)


section \<open>What an update leaves of an entity's record\<close>












section \<open>Projectiles waiting in newProjectiles are not read\<close>

lemma pending_proj [simp]:
  "heap (pending qs s) = heap s" "nextRef (pending qs s) = nextRef s"
  "targetXRef (pending qs s) = targetXRef s" "lastStepTimeRef (pending qs s) = lastStepTimeRef s"
  "sfx (pending qs s) = sfx s" "currentEntities (pending qs s) = currentEntities s"
  "newProjectiles (pending qs s) = qs @ newProjectiles s"
  by (simp_all add: pending_def)

lemma pending_updX [simp]: "updX a g (pending qs s) = pending qs (updX a g s)"
  by (simp add: pending_def updX_def)

lemma pending_updY [simp]: "updY a g (pending qs s) = pending qs (updY a g s)"
  by (simp add: pending_def updY_def)

lemma pending_playSfx [simp]: "playSfx c (pending qs s) = pending qs (playSfx c s)"
  by (simp add: pending_def playSfx_def)

lemma pending_stepSound [simp]: "stepSound f (pending qs s) = pending qs (stepSound f s)"
  by (simp add: pending_def stepSound_def playSfx_def)

lemma pending_targetXRef [simp]:
  "(pending qs s)\<lparr>targetXRef := v\<rparr> = pending qs (s\<lparr>targetXRef := v\<rparr>)"
  by (simp add: pending_def)

lemma pending_alloc [simp]: "alloc v (pending qs s) = (fst (alloc v s), pending qs (snd (alloc v s)))"
  by (simp add: pending_def alloc_def)

lemma pending_store [simp]: "store i ent (pending qs s) = pending qs (store i ent s)"
  by (simp add: pending_def store_def)

lemma pending_applyForces [simp]:
  "applyForces f ent (pending qs s) = pending qs (applyForces f ent s)"
  by (simp add: applyForces_def Let_def)

lemma pending_playerControl [simp]:
  "playerControl f ent (pending qs s) = pending qs (playerControl f ent s)"
proof (cases "type ent = PLAYER")
  case False
  then show ?thesis by (simp add: playerControl_def)
next
  case True
  show ?thesis
  proof (cases "keys f ''ArrowRight'' \<or> keys f ''KeyD''")
    case r: True
    show ?thesis
    proof (cases "keys f ''ArrowLeft'' \<or> keys f ''KeyA''")
      case l: True
      from True r l show ?thesis by (simp add: playerControl_def Let_def)
    next
      case l: False
      from True r l show ?thesis by (simp add: playerControl_def Let_def)
    qed
  next
    case r: False
    show ?thesis
    proof (cases "keys f ''ArrowLeft'' \<or> keys f ''KeyA''")
      case l: True
      from True r l show ?thesis by (simp add: playerControl_def Let_def)
    next
      case l: False
      from True r l show ?thesis
        by (cases "targetXRef s") (simp_all add: playerControl_def Let_def)
    qed
  qed
qed

lemma pending_jump [simp]: "jump f ent g (pending qs s) = pending qs (jump f ent g s)"
  by (auto simp: jump_def)

lemma pending_setVelocity:
  "setVelocity ent v (pending qs s) = apsnd (pending qs) (setVelocity ent v s)"
  by (simp add: setVelocity_def alloc_def pending_def)

lemma pending_patrolLogic:
  "patrolLogic ent (pending qs s) = apsnd (pending qs) (patrolLogic ent s)"
  by (simp only: patrolLogic_def Let_def pending_proj pending_setVelocity apsnd_conv
      if_distrib [of "apsnd (pending qs)"] option.case_distrib [of "apsnd (pending qs)"]
      cong: option.case_cong if_cong)

lemma pending_turretAim [simp]: "turretAim ent (pending qs s) = turretAim ent s"
  by (simp add: turretAim_def Let_def split: option.splits)

lemma pending_turretLogic:
  "turretLogic f ent (pending qs s) = apsnd (pending qs) (turretLogic f ent s)"
proof (cases "behavior ent = Some TURRET \<and> truthy (fireRate ent)")
  case False
  then show ?thesis by (auto simp: turretLogic_def)
next
  case True
  obtain sf fv sp where aim: "turretAim ent s = (sf, fv, sp)"
    by (cases "turretAim ent s") auto
  then have aim': "turretAim ent (s\<lparr>newProjectiles := qs @ newProjectiles s\<rparr>) = (sf, fv, sp)"
    using pending_turretAim [of ent qs s] by (simp add: pending_def)
  show ?thesis
  proof (cases "sf \<and> (\<not> truthy (lastFireTime ent) \<or>
               (case (lastFireTime ent, fireRate ent) of
                  (Some l, Some r) \<Rightarrow> time f - l > r | _ \<Rightarrow> False))")
    case fire: True
    with True aim aim' show ?thesis
      by (simp add: turretLogic_def Let_def alloc_def playSfx_def pending_def)
  next
    case fire: False
    with True aim aim' show ?thesis
      by (auto simp: turretLogic_def Let_def pending_def split: option.splits)
  qed
qed

lemma pending_forOf:
  assumes "\<And>e st. body e (g st) = onFlow g h (body e st)"
  shows "forOf body es (g st) = onFlow g h (forOf body es st)"
proof (induction es arbitrary: st)
  case Nil
  show ?case by simp
next
  case (Cons e es)
  show ?case
    by (cases "body e st") (simp_all add: assms Cons.IH)
qed

lemma pending_resolveX:
  "resolveX rect other (apsnd (apsnd (pending qs)) st)
     = onFlow (apsnd (apsnd (pending qs))) (pending qs) (resolveX rect other st)"
  by (cases st) (simp add: resolveX_def Let_def checkCollision_def)

lemma pending_resolveY:
  "resolveY rect other (apsnd (apsnd (apsnd (pending qs))) st)
     = onFlow (apsnd (apsnd (apsnd (pending qs)))) (pending qs) (resolveY rect other st)"
  by (cases st) (simp add: resolveY_def Let_def checkCollision_def)

lemma pending_clampX:
  "clampX f ent (pending qs s) = apsnd (apsnd (pending qs)) (clampX f ent s)"
  by (simp add: clampX_def Let_def)

lemma pending_moveX:
  "moveX f ent (pending qs s) = onFlow (apsnd (pending qs)) (pending qs) (moveX f ent s)"
proof -
  obtain ent1 nx1 s1 where cl: "clampX f ent s = (ent1, nx1, s1)"
    by (cases "clampX f ent s") auto
  obtain r s2 where al: "alloc \<lparr>x = nx1, y = y (heap s1 (pos ent))\<rparr> s1 = (r, s2)"
    by (cases "alloc \<lparr>x = nx1, y = y (heap s1 (pos ent))\<rparr> s1") auto
  have loop: "forOf (resolveX (ent1\<lparr>pos := r\<rparr>)) (currentEntities s2) (ent1, nx1, pending qs s2)
      = onFlow (apsnd (apsnd (pending qs))) (pending qs)
          (forOf (resolveX (ent1\<lparr>pos := r\<rparr>)) (currentEntities s2) (ent1, nx1, s2))"
    using pending_forOf [of "resolveX (ent1\<lparr>pos := r\<rparr>)" "apsnd (apsnd (pending qs))" "pending qs"
        "currentEntities s2" "(ent1, nx1, s2)", OF pending_resolveX]
    by simp
  show ?thesis
    by (cases "forOf (resolveX (ent1\<lparr>pos := r\<rparr>)) (currentEntities s2) (ent1, nx1, s2)")
       (auto simp: moveX_def pending_clampX cl al loop)
qed

lemma pending_moveY:
  "moveY f ent (pending qs s)
     = onFlow (apsnd (apsnd (pending qs))) (pending qs) (moveY f ent s)"
proof -
  define ny where "ny = y (heap s (pos ent)) + y (heap s (velocity ent)) * deltaTime f"
  obtain r s1 where al: "alloc \<lparr>x = x (heap s (pos ent)), y = ny\<rparr> s = (r, s1)"
    by (cases "alloc \<lparr>x = x (heap s (pos ent)), y = ny\<rparr> s") auto
  have loop: "forOf (resolveY (ent\<lparr>pos := r\<rparr>)) (currentEntities s1) (ent, ny, False, pending qs s1)
      = onFlow (apsnd (apsnd (apsnd (pending qs)))) (pending qs)
          (forOf (resolveY (ent\<lparr>pos := r\<rparr>)) (currentEntities s1) (ent, ny, False, s1))"
    using pending_forOf [of "resolveY (ent\<lparr>pos := r\<rparr>)" "apsnd (apsnd (apsnd (pending qs)))"
        "pending qs" "currentEntities s1" "(ent, ny, False, s1)", OF pending_resolveY]
    by simp
  show ?thesis
    by (cases "forOf (resolveY (ent\<lparr>pos := r\<rparr>)) (currentEntities s1) (ent, ny, False, s1)")
       (auto simp: moveY_def Let_def ny_def [symmetric] al loop)
qed

lemma pending_offWorld:
  "offWorld ent (pending qs s) = onFlow (apsnd (pending qs)) (pending qs) (offWorld ent s)"
  by (simp add: offWorld_def)

lemma pending_exitCheck:
  "exitCheck f ent (pending qs s) = onFlow (pending qs) (pending qs) (exitCheck f ent s)"
  by (simp add: exitCheck_def checkCollision_def split: option.splits)

lemma pending_resolveEntity:
  "resolveEntity f i ent (pending qs s)
     = onFlow (pending qs) (pending qs) (resolveEntity f i ent s)"
  unfolding resolveEntity_def
  by (simp add: pending_moveX pending_moveY pending_offWorld pending_exitCheck
      split: Flow.splits prod.splits)

lemma pending_integrate:
  "integrate f i ent (pending qs s) = onFlow (pending qs) (pending qs) (integrate f i ent s)"
  by (simp add: integrate_def pending_resolveEntity)

lemma pending_processEntity:
  "processEntity f i (pending qs s) = onFlow (pending qs) (pending qs) (processEntity f i s)"
  by (cases "patrolLogic (currentEntities s ! i) s";
      cases "turretLogic f (fst (patrolLogic (currentEntities s ! i) s))
               (snd (patrolLogic (currentEntities s ! i) s))")
     (simp add: processEntity_def pending_patrolLogic pending_turretLogic pending_integrate)

lemma pending_physicsSubstep:
  "physicsSubstep f ixs (pending qs s) = onFlow (pending qs) (pending qs) (physicsSubstep f ixs s)"
  unfolding physicsSubstep_def
  by (rule pending_forOf) (rule pending_processEntity)

lemma pending_all: "pending (newProjectiles s) (s\<lparr>newProjectiles := []\<rparr>) = s"
  by (simp add: pending_def)

section \<open>Evaluating the samples\<close>

lemmas model_defs = gameLoop_def physicsSubstep_def processEntity_def integrate_def
  resolveEntity_def patrolLogic_def
  turretLogic_def turretAim_def applyForces_def playerControl_def moveX_def clampX_def moveY_def
  resolveX_def resolveY_def
  offWorld_def jump_def exitCheck_def store_def enter_def leave_def activeEntities_def frameOf_def
  frameDeltaTime_def setupLevel_def resetLevel_def currentLevel_def instantiate_def newPlayer_def
  alloc_def updX_def updY_def playSfx_def stepSound_def checkCollision_def setVelocity_def
  newProjectile_def orElse_def truthy_def CANVAS_WIDTH_def CANVAS_HEIGHT_def PLAYER_SIZE_def
  Let_def

lemmas sample_defs = entityAt_def heapOf_def DEFAULT_PHYSICS_def simOf_def frameAt_def worldOf_def
  emptyLevel_def patroller_def fallingBox_def runner_def boxScene_def

lemma boxScene_first:
  "\<exists>s'. physicsSubstep (frameAt 16 (2 / 125) []) [0..<1] boxScene = Cont s'"
  by (simp add: model_defs sample_defs)

lemma boxScene_allocated: "allocated boxScene"
  by (simp add: allocated_def sample_defs)

lemma boxScene_apart: "apart boxScene"
  by (simp add: apart_def cells_def sample_defs)

lemma sqrt_10000 [simp]: "sqrt 10000 = 100"
  by (simp add: real_sqrt_unique)

lemmas turret_defs = turret_def turretScene_def turretWorld_def Math_atan2_def aimOf_def

lemma turretScene_allocated: "allocated turretScene"
  by (simp add: allocated_def sample_defs turret_defs)

lemma turretScene_apart: "apart turretScene"
  by (simp add: apart_def cells_def sample_defs turret_defs)

lemma turretScene_aim:
  "aimOf 0 turretScene = (\<lparr>x = 300, y = 0\<rparr>, \<lparr>x = 145, y = 110\<rparr>)"
  by (simp add: model_defs sample_defs turret_defs)

lemma turretScene_run:
  "\<exists>s1 s'. processEntity (frameAt 1000 (2 / 125) []) 0 turretScene = Cont s1
     \<and> physicsSubstep (frameAt 1000 (2 / 125) []) [1] s1 = Cont s'
     \<and> length (newProjectiles s1) = 1"
  by (simp add: model_defs sample_defs turret_defs)

lemmas level_defs = templateAt_def zeroSizeLevel_def zeroSizeWorld_def

lemmas hidden_defs = hiddenSpike_def spikeScene_def hiddenExitWorld_def

lemmas trap_defs = trapLevel_def trapWorld_def

lemmas view_defs = processEntityAt_def resolveEntityAt_def moveXAt_def moveYAt_def
  resolveXAt_def resolveYAt_def exitCheckAt_def overlapAt_def

lemmas chase_defs = chaser_def chaseWorld_def

lemmas runner_defs = runnerWorld_def

lemma sqrt_1024 [simp]: "sqrt 1024 = 32"
  by (simp add: real_sqrt_unique)

lemmas ambush_defs = ambushWorld_def turret_def Math_atan2_def

lemma ambush_allocated: "allocated (enter ambushWorld)"
  by (simp add: allocated_def enter_def sample_defs ambush_defs)

lemma ambush_apart: "apart (enter ambushWorld)"
  by (simp add: apart_def cells_def enter_def sample_defs ambush_defs)

lemma ambush_turret_step:
  "\<exists>s1 s'. processEntity (frameOf 1000 (\<lambda>_. False) ambushWorld) 0 (enter ambushWorld) = Cont s1
     \<and> physicsSubstep (frameOf 1000 (\<lambda>_. False) ambushWorld)
           [Suc 0..<length (entitiesRef ambushWorld)] s1 = Cont s'
     \<and> length (newProjectiles s1) = 1"
  by (simp add: model_defs sample_defs ambush_defs upt_rec)

lemma boxScene_after_box:
  "\<exists>s'. physicsSubstep (frameAt 16 (2 / 125) []) [0..<1] boxScene = Cont s'
     \<and> map (\<lambda>e. heap s' (pos e)) (currentEntities s')
         = [\<lparr>x = 100, y = 12532 / 125\<rparr>, \<lparr>x = 300, y = 100\<rparr>, \<lparr>x = 0, y = 450\<rparr>]"
  by (simp add: model_defs sample_defs)



section \<open>What a collision query observes\<close>

lemma others_ext:
  assumes "others view ent s" and "ext {pos ent, velocity ent} s s'" and "hides ent ent'"
  shows "others view ent' s'"
proof -
  from hides_fields [OF assms(3)] have f: "pos ent' = pos ent" "velocity ent' = velocity ent"
    "idE ent' = idE ent" "type ent' = type ent" by auto
  from assms(2) have ex: "nextRef s \<le> nextRef s'" "currentEntities s' = currentEntities s"
    "\<forall>a. a < nextRef s \<longrightarrow> a \<notin> {pos ent, velocity ent} \<longrightarrow> heap s' a = heap s a"
    by (auto simp: ext_def)
  show ?thesis
    unfolding others_def
  proof (intro allI impI)
    fix e assume mem: "e \<in> set (currentEntities s')" "idE e \<noteq> idE ent' \<or> type e \<noteq> type ent'"
    with assms(1) f ex(2) have a: "pos e \<noteq> pos ent" "pos e \<noteq> velocity ent" "pos e < nextRef s"
      "heap s (pos e) = view (pos e)"
      by (auto simp: others_def)
    with ex(3) have "heap s' (pos e) = heap s (pos e)" by simp
    with a ex(1) f show "pos e \<noteq> pos ent' \<and> pos e \<noteq> velocity ent' \<and> pos e < nextRef s'
        \<and> heap s' (pos e) = view (pos e)" by simp
  qed
qed

lemma resolveXAt_eq:
  assumes "idE other \<noteq> idE ent \<longrightarrow> heap s (pos other) = view (pos other)"
  shows "resolveX rect other (ent, nx, s) = resolveXAt view rect other (ent, nx, s)"
  using assms by (auto simp: resolveX_def resolveXAt_def checkCollision_def overlapAt_def)

lemma resolveYAt_eq:
  assumes "idE other \<noteq> idE ent \<longrightarrow> heap s (pos other) = view (pos other)"
  shows "resolveY rect other (ent, ny, g, s) = resolveYAt view rect other (ent, ny, g, s)"
  using assms by (auto simp: resolveY_def resolveYAt_def checkCollision_def overlapAt_def)

lemma resolveX_heap:
  "resolveX rect other (ent, nx, s) = Cont (ent', nx', s') \<Longrightarrow> a \<noteq> velocity ent
     \<Longrightarrow> heap s' a = heap s a"
  by (auto simp: resolveX_def Let_def split: if_splits)

lemma resolveY_heap:
  "resolveY rect other (ent, ny, g, s) = Cont (ent', ny', g', s') \<Longrightarrow> a \<noteq> velocity ent
     \<Longrightarrow> heap s' a = heap s a"
  by (auto simp: resolveY_def Let_def split: if_splits)

lemma forOf_resolveXAt:
  assumes "\<forall>e. e \<in> set os \<longrightarrow> idE e \<noteq> idE ent \<longrightarrow>
             pos e \<noteq> velocity ent \<and> heap s (pos e) = view (pos e)"
  shows "forOf (resolveX rect) os (ent, nx, s) = forOf (resolveXAt view rect) os (ent, nx, s)"
  using assms
proof (induction os arbitrary: ent nx s)
  case Nil
  show ?case by simp
next
  case (Cons other os)
  from Cons.prems have hd: "idE other \<noteq> idE ent \<longrightarrow> heap s (pos other) = view (pos other)"
    by simp
  note eq = resolveXAt_eq [of other ent s view rect nx, OF hd]
  show ?case
  proof (cases "resolveX rect other (ent, nx, s)")
    case (Return out r)
    with eq have a: "resolveXAt view rect other (ent, nx, s) = Return out r" by simp
    show ?thesis by (simp add: Return a)
  next
    case (Cont st1)
    obtain ent1 nx1 s1 where st1: "st1 = (ent1, nx1, s1)" by (cases st1) auto
    from Cont st1 have step: "resolveX rect other (ent, nx, s) = Cont (ent1, nx1, s1)" by simp
    from resolveX_Cont [OF step] have h: "hides ent ent1" by simp
    from hides_fields [OF h] have f: "idE ent1 = idE ent" "velocity ent1 = velocity ent" by auto
    have "\<forall>e. e \<in> set os \<longrightarrow> idE e \<noteq> idE ent1 \<longrightarrow>
             pos e \<noteq> velocity ent1 \<and> heap s1 (pos e) = view (pos e)"
    proof (intro allI impI)
      fix e assume e: "e \<in> set os" "idE e \<noteq> idE ent1"
      with Cons.prems f have a: "pos e \<noteq> velocity ent" "heap s (pos e) = view (pos e)" by auto
      from resolveX_heap [OF step a(1)] a f
      show "pos e \<noteq> velocity ent1 \<and> heap s1 (pos e) = view (pos e)" by simp
    qed
    from Cons.IH [OF this]
    have ih: "forOf (resolveX rect) os (ent1, nx1, s1)
                = forOf (resolveXAt view rect) os (ent1, nx1, s1)" .
    from step eq have b: "resolveXAt view rect other (ent, nx, s) = Cont (ent1, nx1, s1)" by simp
    show ?thesis by (simp add: step b ih)
  qed
qed

lemma forOf_resolveYAt:
  assumes "\<forall>e. e \<in> set os \<longrightarrow> idE e \<noteq> idE ent \<longrightarrow>
             pos e \<noteq> velocity ent \<and> heap s (pos e) = view (pos e)"
  shows "forOf (resolveY rect) os (ent, ny, g, s) = forOf (resolveYAt view rect) os (ent, ny, g, s)"
  using assms
proof (induction os arbitrary: ent ny g s)
  case Nil
  show ?case by simp
next
  case (Cons other os)
  from Cons.prems have hd: "idE other \<noteq> idE ent \<longrightarrow> heap s (pos other) = view (pos other)"
    by simp
  note eq = resolveYAt_eq [of other ent s view rect ny g, OF hd]
  show ?case
  proof (cases "resolveY rect other (ent, ny, g, s)")
    case (Return out r)
    with eq have a: "resolveYAt view rect other (ent, ny, g, s) = Return out r" by simp
    show ?thesis by (simp add: Return a)
  next
    case (Cont st1)
    obtain ent1 ny1 g1 s1 where st1: "st1 = (ent1, ny1, g1, s1)" by (cases st1) auto
    from Cont st1 have step: "resolveY rect other (ent, ny, g, s) = Cont (ent1, ny1, g1, s1)"
      by simp
    from resolveY_Cont [OF step] have h: "hides ent ent1" by simp
    from hides_fields [OF h] have f: "idE ent1 = idE ent" "velocity ent1 = velocity ent" by auto
    have "\<forall>e. e \<in> set os \<longrightarrow> idE e \<noteq> idE ent1 \<longrightarrow>
             pos e \<noteq> velocity ent1 \<and> heap s1 (pos e) = view (pos e)"
    proof (intro allI impI)
      fix e assume e: "e \<in> set os" "idE e \<noteq> idE ent1"
      with Cons.prems f have a: "pos e \<noteq> velocity ent" "heap s (pos e) = view (pos e)" by auto
      from resolveY_heap [OF step a(1)] a f
      show "pos e \<noteq> velocity ent1 \<and> heap s1 (pos e) = view (pos e)" by simp
    qed
    from Cons.IH [OF this]
    have ih: "forOf (resolveY rect) os (ent1, ny1, g1, s1)
                = forOf (resolveYAt view rect) os (ent1, ny1, g1, s1)" .
    from step eq have b: "resolveYAt view rect other (ent, ny, g, s) = Cont (ent1, ny1, g1, s1)"
      by simp
    show ?thesis by (simp add: step b ih)
  qed
qed

lemma others_loop:
  assumes "others view ent s"
  shows "\<forall>e. e \<in> set (currentEntities s) \<longrightarrow> idE e \<noteq> idE ent \<longrightarrow>
           pos e \<noteq> velocity ent \<and> heap s (pos e) = view (pos e)"
  using assms by (auto simp: others_def)

lemma moveXAt_eq:
  assumes ot: "others view ent s"
  shows "moveX f ent s = moveXAt view f ent s"
proof -
  obtain ent1 nx1 s1 where cl: "clampX f ent s = (ent1, nx1, s1)"
    by (cases "clampX f ent s") auto
  obtain r s2 where al: "alloc \<lparr>x = nx1, y = y (heap s1 (pos ent))\<rparr> s1 = (r, s2)"
    by (cases "alloc \<lparr>x = nx1, y = y (heap s1 (pos ent))\<rparr> s1") auto
  from clampX_ext [OF cl] have e1: "ext {velocity ent} s s1" and h1: "hides ent ent1" by auto
  from e1 have "ext {pos ent, velocity ent} s s1" by (auto intro: ext_mono)
  from others_ext [OF ot this h1] have o1: "others view ent1 s1" .
  have "ext {pos ent1, velocity ent1} s1 s2" by (rule ext_alloc [OF al])
  from others_ext [OF o1 this hides_refl] have o2: "others view ent1 s2" .
  from forOf_resolveXAt [OF others_loop [OF o2]]
  have loop: "forOf (resolveX (ent1\<lparr>pos := r\<rparr>)) (currentEntities s2) (ent1, nx1, s2)
      = forOf (resolveXAt view (ent1\<lparr>pos := r\<rparr>)) (currentEntities s2) (ent1, nx1, s2)" .
  show ?thesis by (simp add: moveX_def moveXAt_def cl al loop)
qed

lemma moveYAt_eq:
  assumes ot: "others view ent s"
  shows "moveY f ent s = moveYAt view f ent s"
proof -
  define ny where "ny = y (heap s (pos ent)) + y (heap s (velocity ent)) * deltaTime f"
  obtain r s1 where al: "alloc \<lparr>x = x (heap s (pos ent)), y = ny\<rparr> s = (r, s1)"
    by (cases "alloc \<lparr>x = x (heap s (pos ent)), y = ny\<rparr> s") auto
  have "ext {pos ent, velocity ent} s s1" by (rule ext_alloc [OF al])
  from others_ext [OF ot this hides_refl] have o1: "others view ent s1" .
  from forOf_resolveYAt [OF others_loop [OF o1]]
  have loop: "forOf (resolveY (ent\<lparr>pos := r\<rparr>)) (currentEntities s1) (ent, ny, False, s1)
      = forOf (resolveYAt view (ent\<lparr>pos := r\<rparr>)) (currentEntities s1) (ent, ny, False, s1)" .
  show ?thesis by (simp add: moveY_def moveYAt_def Let_def ny_def [symmetric] al loop)
qed

lemma exitCheckAt_eq:
  assumes ot: "others view ent s"
  shows "exitCheck f ent s = exitCheckAt view f ent s"
proof (cases "type ent = PLAYER")
  case False
  then show ?thesis by (simp add: exitCheck_def exitCheckAt_def)
next
  case True
  show ?thesis
  proof (cases "find (\<lambda>e. type e = EXIT) (currentEntities s)")
    case None
    with True show ?thesis by (simp add: exitCheck_def exitCheckAt_def)
  next
    case (Some exit)
    then have "exit \<in> set (currentEntities s)" "type exit = EXIT"
      by (auto simp: find_Some_iff)
    with ot True have "heap s (pos exit) = view (pos exit)" by (auto simp: others_def)
    with True Some show ?thesis
      by (simp add: exitCheck_def exitCheckAt_def checkCollision_def overlapAt_def)
  qed
qed

lemma resolveEntityAt_eq:
  assumes ot: "others view ent s"
  shows "resolveEntity f i ent s = resolveEntityAt view f i ent s"
proof -
  note mx = moveXAt_eq [OF ot, of f]
  show ?thesis
  proof (cases "moveX f ent s")
    case (Return out r)
    with mx have "moveXAt view f ent s = Return out r" by simp
    with Return show ?thesis by (simp add: resolveEntity_def resolveEntityAt_def)
  next
    case (Cont p3)
    obtain ent3 s3 where p3: "p3 = (ent3, s3)" by (cases p3) auto
    from Cont p3 have c3: "moveX f ent s = Cont (ent3, s3)" by simp
    with mx have c3': "moveXAt view f ent s = Cont (ent3, s3)" by simp
    from moveX_Cont [OF c3] have e3: "ext {pos ent, velocity ent} s s3" and h3: "hides ent ent3"
      by auto
    from others_ext [OF ot e3 h3] have o3: "others view ent3 s3" .
    note my = moveYAt_eq [OF o3, of f]
    show ?thesis
    proof (cases "moveY f ent3 s3")
      case (Return out r)
      with my have "moveYAt view f ent3 s3 = Return out r" by simp
      with Return c3 c3' show ?thesis by (simp add: resolveEntity_def resolveEntityAt_def)
    next
      case (Cont p4)
      obtain ent4 g s4 where p4: "p4 = (ent4, g, s4)" by (cases p4) auto
      from Cont p4 have c4: "moveY f ent3 s3 = Cont (ent4, g, s4)" by simp
      with my have c4': "moveYAt view f ent3 s3 = Cont (ent4, g, s4)" by simp
      from moveY_Cont [OF c4] have e4: "ext {pos ent3, velocity ent3} s3 s4"
        and h4: "hides ent3 ent4" by auto
      from others_ext [OF o3 e4 h4] have o4: "others view ent4 s4" .
      show ?thesis
      proof (cases "offWorld ent4 s4")
        case (Return out r)
        with c3 c3' c4 c4' show ?thesis by (simp add: resolveEntity_def resolveEntityAt_def)
      next
        case (Cont p5)
        obtain ent5 s5 where p5: "p5 = (ent5, s5)" by (cases p5) auto
        from Cont p5 have c5: "offWorld ent4 s4 = Cont (ent5, s5)" by simp
        from offWorld_Cont [OF c5] have e5: "s5 = s4" and h5: "hides ent4 ent5" by auto
        from others_ext [OF o4 ext_refl h5] e5 have o5: "others view ent5 s5" by simp
        have "ext {pos ent5, velocity ent5} s5 (jump f ent5 g s5)"
          by (rule ext_jump) simp
        from others_ext [OF o5 this hides_refl]
        have "others view ent5 (jump f ent5 g s5)" .
        from exitCheckAt_eq [OF this]
        have ec: "exitCheck f ent5 (jump f ent5 g s5) = exitCheckAt view f ent5 (jump f ent5 g s5)" .
        from c3 c3' c4 c4' c5 ec show ?thesis
          by (simp add: resolveEntity_def resolveEntityAt_def)
      qed
    qed
  qed
qed

lemma processEntityAt_eq:
  assumes al: "allocated s" and ap: "apart s" and i: "i < length (currentEntities s)"
  shows "processEntity f i s = processEntityAt (heap s) f i s"
proof -
  let ?E = "currentEntities s ! i"
  obtain ent1 s1 where pl: "patrolLogic ?E s = (ent1, s1)" by (cases "patrolLogic ?E s") auto
  obtain ent2 s2 where tl: "turretLogic f ent1 s1 = (ent2, s2)"
    by (cases "turretLogic f ent1 s1") auto
  from patrolLogic_cases [OF pl] have p1:
    "pos ent1 = pos ?E \<and> idE ent1 = idE ?E \<and> type ent1 = type ?E
     \<and> (velocity ent1 = velocity ?E \<or> velocity ent1 = nextRef s)
     \<and> nextRef s \<le> nextRef s1
     \<and> currentEntities s1 = currentEntities s
     \<and> (\<forall>c. c < nextRef s \<longrightarrow> heap s1 c = heap s c)"
    by auto
  from turretLogic_cases [OF tl] have p2:
    "pos ent2 = pos ent1 \<and> idE ent2 = idE ent1 \<and> type ent2 = type ent1
     \<and> velocity ent2 = velocity ent1
     \<and> nextRef s1 \<le> nextRef s2
     \<and> currentEntities s2 = currentEntities s1
     \<and> (\<forall>c. c < nextRef s1 \<longrightarrow> heap s2 c = heap s1 c)"
    by auto
  have o2: "others (heap s) ent2 s2"
    unfolding others_def
  proof (intro allI impI)
    fix e assume mem: "e \<in> set (currentEntities s2)"
      and diff: "idE e \<noteq> idE ent2 \<or> type e \<noteq> type ent2"
    from mem p1 p2 obtain j where j: "j < length (currentEntities s)" "e = currentEntities s ! j"
      by (auto simp: in_set_conv_nth)
    from diff p1 p2 j have ne: "i \<noteq> j" by auto
    from apart_nth [OF ap i j(1) ne] j
    have d: "pos e \<noteq> pos ?E" "pos e \<noteq> velocity ?E" by auto
    from al j have lt: "pos e < nextRef s" by (auto simp: allocated_def)
    from lt p1 p2 have "heap s2 (pos e) = heap s (pos e)" by simp
    with d lt p1 p2 show "pos e \<noteq> pos ent2 \<and> pos e \<noteq> velocity ent2 \<and> pos e < nextRef s2
        \<and> heap s2 (pos e) = heap s (pos e)" by auto
  qed
  have "ext {pos ent2, velocity ent2} s2 (playerControl f ent2 (applyForces f ent2 s2))"
    by (rule ext_trans [OF ext_applyForces ext_playerControl]) simp_all
  from others_ext [OF o2 this hides_refl]
  have "others (heap s) ent2 (playerControl f ent2 (applyForces f ent2 s2))" .
  from resolveEntityAt_eq [OF this]
  have "resolveEntity f i ent2 (playerControl f ent2 (applyForces f ent2 s2))
      = resolveEntityAt (heap s) f i ent2 (playerControl f ent2 (applyForces f ent2 s2))" .
  then show ?thesis
    by (simp add: processEntity_def processEntityAt_def integrate_def pl tl)
qed

text \<open>
  C1 (as amended): there is no snapshot.  Within one frame, the collision queries made while
  entity \<open>E\<close> (index \<open>i\<close>) is resolved read every other entity's position from the store as it
  stands when the loop reaches \<open>E\<close>: the step of \<open>E\<close> in the code is the step of \<open>E\<close> with the
  others' positions read from that store (first conjunct).  In that store an entity \<open>O\<close> that
  comes later in the list than \<open>E\<close> still has its start-of-frame record and position (second
  conjunct), and an entity \<open>O\<close> that comes earlier has the position that its own update
  finalized in this same frame (third conjunct; \<open>s1\<close> is the state right after the update of
  \<open>O\<close>).  \<open>s\<close> is the state at the start of the loop, \<open>s'\<close> the state when the loop reaches \<open>E\<close>.
  The hypotheses \<open>allocated\<close> and \<open>apart\<close> hold after the load of a well-formed blueprint and
  after every committed frame (\<open>setupLevel_inv\<close>, \<open>gameLoop_inv\<close>).
\<close>

theorem collision_queries_read_store_in_place:
  assumes al: "allocated s" and ap: "apart s" and i: "i < length (currentEntities s)"
    and run: "physicsSubstep f [0..<i] s = Cont s'"
  shows "processEntity f i s' = processEntityAt (heap s') f i s'
       \<and> (\<forall>j. i < j \<longrightarrow> j < length (currentEntities s) \<longrightarrow>
             currentEntities s' ! j = currentEntities s ! j
             \<and> heap s' (pos (currentEntities s ! j)) = heap s (pos (currentEntities s ! j)))
       \<and> (\<forall>j s1. j < i \<longrightarrow> physicsSubstep f [0..<Suc j] s = Cont s1 \<longrightarrow>
             pos (currentEntities s' ! j) = pos (currentEntities s1 ! j)
             \<and> heap s' (pos (currentEntities s' ! j)) = heap s1 (pos (currentEntities s1 ! j)))"
proof (intro conjI allI impI)
  from i have b: "\<forall>k. k \<in> set [0..<i] \<longrightarrow> k < length (currentEntities s)" by simp
  from physicsSubstep_inv [OF run b al ap] have inv: "allocated s'" "apart s'" by auto
  from stepRel_physicsSubstep [OF run b]
  have "length (currentEntities s') = length (currentEntities s)" by (simp add: stepRel_def)
  with i have "i < length (currentEntities s')" by simp
  from processEntityAt_eq [OF inv this]
  show "processEntity f i s' = processEntityAt (heap s') f i s'" .
next
  fix j assume j: "i < j" "j < length (currentEntities s)"
  from i have b: "\<forall>k. k \<in> set [0..<i] \<longrightarrow> k < length (currentEntities s)" by simp
  from stepRel_physicsSubstep [OF run b] have r: "stepRel (set [0..<i]) s s'" .
  from r j show "currentEntities s' ! j = currentEntities s ! j"
    unfolding stepRel_def by simp
  from al j have lt: "pos (currentEntities s ! j) < nextRef s"
    by (simp add: allocated_def)
  have "pos (currentEntities s ! j) \<noteq> pos (currentEntities s ! k)
        \<and> pos (currentEntities s ! j) \<noteq> velocity (currentEntities s ! k)"
    if "k \<in> set [0..<i]" for k
    using apart_nth [OF ap, of k j] that i j by simp
  with r lt show "heap s' (pos (currentEntities s ! j)) = heap s (pos (currentEntities s ! j))"
    unfolding stepRel_def by blast
next
  fix j s1 assume j: "j < i" and r1: "physicsSubstep f [0..<Suc j] s = Cont s1"
  from run upt_split [OF j] have "physicsSubstep f ([0..<Suc j] @ [Suc j..<i]) s = Cont s'"
    by (simp only:)
  then have "(case physicsSubstep f [0..<Suc j] s of
                Cont s1 \<Rightarrow> physicsSubstep f [Suc j..<i] s1
              | Return out r \<Rightarrow> Return out r) = Cont s'"
    by (simp only: physicsSubstep_append)
  with r1 have r2: "physicsSubstep f [Suc j..<i] s1 = Cont s'" by simp
  from i j have b1: "\<forall>k. k \<in> set [0..<Suc j] \<longrightarrow> k < length (currentEntities s)" by simp
  from physicsSubstep_inv [OF r1 b1 al ap] have inv1: "allocated s1" "apart s1" by auto
  from stepRel_physicsSubstep [OF r1 b1]
  have len1: "length (currentEntities s1) = length (currentEntities s)" by (simp add: stepRel_def)
  with i have b2: "\<forall>k. k \<in> set [Suc j..<i] \<longrightarrow> k < length (currentEntities s1)" by simp
  from stepRel_physicsSubstep [OF r2 b2] have r: "stepRel (set [Suc j..<i]) s1 s'" .
  from i j len1 have jl: "j < length (currentEntities s1)" by simp
  from r jl show same: "pos (currentEntities s' ! j) = pos (currentEntities s1 ! j)"
    unfolding stepRel_def by simp
  from inv1 jl have lt: "pos (currentEntities s1 ! j) < nextRef s1"
    by (simp add: allocated_def)
  have "pos (currentEntities s1 ! j) \<noteq> pos (currentEntities s1 ! k)
        \<and> pos (currentEntities s1 ! j) \<noteq> velocity (currentEntities s1 ! k)"
    if "k \<in> set [Suc j..<i]" for k
    using apart_nth [OF inv1(2), of k j] that i jl len1 by simp
  with r lt have "heap s' (pos (currentEntities s1 ! j)) = heap s1 (pos (currentEntities s1 ! j))"
    unfolding stepRel_def by blast
  with same show "heap s' (pos (currentEntities s' ! j)) = heap s1 (pos (currentEntities s1 ! j))"
    by simp
qed

theorem collision_queries_read_store_in_place_witness:
  "allocated boxScene \<and> apart boxScene
   \<and> map (\<lambda>e. heap boxScene (pos e)) (currentEntities boxScene)
       = [\<lparr>x = 100, y = 100\<rparr>, \<lparr>x = 300, y = 100\<rparr>, \<lparr>x = 0, y = 450\<rparr>]
   \<and> (\<exists>s'. physicsSubstep (frameAt 16 (2 / 125) []) [0..<1] boxScene = Cont s'
         \<and> map (\<lambda>e. heap s' (pos e)) (currentEntities s')
             = [\<lparr>x = 100, y = 12532 / 125\<rparr>, \<lparr>x = 300, y = 100\<rparr>, \<lparr>x = 0, y = 450\<rparr>]
         \<and> processEntity (frameAt 16 (2 / 125) []) 1 s'
             = processEntityAt (heap s') (frameAt 16 (2 / 125) []) 1 s')"
proof -
  from boxScene_after_box obtain s' where
    run: "physicsSubstep (frameAt 16 (2 / 125) []) [0..<1] boxScene = Cont s'"
    and at: "map (\<lambda>e. heap s' (pos e)) (currentEntities s')
         = [\<lparr>x = 100, y = 12532 / 125\<rparr>, \<lparr>x = 300, y = 100\<rparr>, \<lparr>x = 0, y = 450\<rparr>]"
    by (elim exE conjE) (rule that)
  have i: "1 < length (currentEntities boxScene)" by (simp add: sample_defs)
  from collision_queries_read_store_in_place [OF boxScene_allocated boxScene_apart i run]
  have eq: "processEntity (frameAt 16 (2 / 125) []) 1 s'
             = processEntityAt (heap s') (frameAt 16 (2 / 125) []) 1 s'"
    by simp
  have start: "map (\<lambda>e. heap boxScene (pos e)) (currentEntities boxScene)
       = [\<lparr>x = 100, y = 100\<rparr>, \<lparr>x = 300, y = 100\<rparr>, \<lparr>x = 0, y = 450\<rparr>]"
    by (simp add: sample_defs)
  show ?thesis
  proof (intro conjI exI)
    show "allocated boxScene" by (rule boxScene_allocated)
    show "apart boxScene" by (rule boxScene_apart)
    show "map (\<lambda>e. heap boxScene (pos e)) (currentEntities boxScene)
       = [\<lparr>x = 100, y = 100\<rparr>, \<lparr>x = 300, y = 100\<rparr>, \<lparr>x = 0, y = 450\<rparr>]" by (rule start)
    show "physicsSubstep (frameAt 16 (2 / 125) []) [0..<1] boxScene = Cont s'" by (rule run)
    show "map (\<lambda>e. heap s' (pos e)) (currentEntities s')
             = [\<lparr>x = 100, y = 12532 / 125\<rparr>, \<lparr>x = 300, y = 100\<rparr>, \<lparr>x = 0, y = 450\<rparr>]"
      by (rule at)
    show "processEntity (frameAt 16 (2 / 125) []) 1 s'
             = processEntityAt (heap s') (frameAt 16 (2 / 125) []) 1 s'" by (rule eq)
  qed
qed

text \<open>
  C1 as stated fails.  A deadly enemy (first in the list) and the Player both move to the
  right.  With the positions of the start of the frame (enemy at \<open>x = 100\<close>) the Player's
  tentative rectangle \<open>[73.6, 105.6]\<close> overlaps the enemy and the Player dies: this is the step
  read from the start-of-frame store, \<open>processEntityAt (heap (enter chaseWorld))\<close>.  The code has
  moved the enemy to \<open>x = 116\<close> before the Player is resolved, finds no overlap and commits the
  frame with the Player alive at \<open>x = 73.6\<close>.
\<close>

theorem snapshot_counterexample:
  "map (\<lambda>e. (type e, heap chaseWorld (pos e))) (entitiesRef chaseWorld)
     = [(ENEMY, \<lparr>x = 100, y = 100\<rparr>), (PLAYER, \<lparr>x = 60, y = 99\<rparr>)]
   \<and> fst (gameLoop 16 (\<lambda>_. False) chaseWorld) = Committed
   \<and> map (\<lambda>e. (type e, heap (snd (gameLoop 16 (\<lambda>_. False) chaseWorld)) (pos e)))
        (entitiesRef (snd (gameLoop 16 (\<lambda>_. False) chaseWorld)))
     = [(ENEMY, \<lparr>x = 116, y = 100\<rparr>), (PLAYER, \<lparr>x = 368 / 5, y = 99\<rparr>)]
   \<and> (\<exists>s1 r. physicsSubstep (frameOf 16 (\<lambda>_. False) chaseWorld) [0..<1] (enter chaseWorld)
               = Cont s1
         \<and> processEntityAt (heap (enter chaseWorld)) (frameOf 16 (\<lambda>_. False) chaseWorld) 1 s1
               = Return Reset r)"
  by (simp add: model_defs view_defs sample_defs chase_defs upt_rec)

section \<open>The blueprint and the simulation\<close>

text \<open>
  C2: the claim is that the simulation never mutates the blueprint, so that the state after a
  death Reset is a freshly initialized one.  \<open>setupLevel\<close> copies the start position
  (\<open>{ ...level.startPos }\<close>) and \<open>origin\<close> (\<open>{ ...e.pos }\<close>) but spreads each template (\<open>...e\<close>), so
  a live entity shares the template's \<open>pos\<close> (and \<open>velocity\<close>) object, and \<open>gameLoop\<close> writes through
  it.  In the level below a non-static crate falls during the frame in which the Player dies on
  a spike: the blueprint's crate position is \<open>(300, 100)\<close> before the frame and
  \<open>(300, 100.256)\<close> after it, and the state committed by the Reset has the crate at
  \<open>(300, 100.256)\<close> with velocity \<open>(0, 16)\<close>, where a fresh load has \<open>(300, 100)\<close> and \<open>(0, 0)\<close>.
\<close>

theorem blueprint_mutated_by_frame:
  "map (\<lambda>e. heap trapWorld (pos e)) (entities trapLevel)
     = [\<lparr>x = 300, y = 100\<rparr>, \<lparr>x = 50, y = 400\<rparr>]
   \<and> map (\<lambda>e. heap (setupLevel trapLevel trapWorld) (pos e))
        (entitiesRef (setupLevel trapLevel trapWorld))
     = [\<lparr>x = 300, y = 100\<rparr>, \<lparr>x = 50, y = 400\<rparr>, \<lparr>x = 50, y = 400\<rparr>]
   \<and> fst (gameLoop 16 (\<lambda>_. False) (setupLevel trapLevel trapWorld)) = LevelReset
   \<and> map (\<lambda>e. heap (snd (gameLoop 16 (\<lambda>_. False) (setupLevel trapLevel trapWorld))) (pos e))
        (entities (currentLevel (snd (gameLoop 16 (\<lambda>_. False) (setupLevel trapLevel trapWorld)))))
     = [\<lparr>x = 300, y = 12532 / 125\<rparr>, \<lparr>x = 50, y = 400\<rparr>]
   \<and> map (\<lambda>e. heap (snd (gameLoop 16 (\<lambda>_. False) (setupLevel trapLevel trapWorld))) (pos e))
        (entitiesRef (snd (gameLoop 16 (\<lambda>_. False) (setupLevel trapLevel trapWorld))))
     = [\<lparr>x = 300, y = 12532 / 125\<rparr>, \<lparr>x = 50, y = 400\<rparr>, \<lparr>x = 50, y = 400\<rparr>]
   \<and> map (\<lambda>e. heap (snd (gameLoop 16 (\<lambda>_. False) (setupLevel trapLevel trapWorld))) (velocity e))
        (entitiesRef (snd (gameLoop 16 (\<lambda>_. False) (setupLevel trapLevel trapWorld))))
     = [\<lparr>x = 0, y = 16\<rparr>, \<lparr>x = 0, y = 0\<rparr>, \<lparr>x = 0, y = 0\<rparr>]"
  by (simp add: model_defs sample_defs level_defs trap_defs upt_rec)

section \<open>Turret gating\<close>


lemma turretLogic_fires_only:
  assumes "turretLogic f ent s = (ent', s')" and "newProjectiles s' \<noteq> newProjectiles s"
  shows "fst (turretAim ent s) \<and> lastFireTime ent' = Some (time f)
         \<and> (lastFireTime ent = None \<or> lastFireTime ent = Some 0
              \<or> (\<exists>l r. lastFireTime ent = Some l \<and> fireRate ent = Some r \<and> time f - l > r))"
  using assms
  by (auto simp: turretLogic_def Let_def truthy_def split: prod.splits if_splits option.splits)






text \<open>
  The hypothesis on the timestamps is needed: the code tests \<open>!ent.lastFireTime\<close> for "never
  fired", which is also true of the number 0.  Were a frame to run at time 0, a turret
  (\<open>fireRate = 2000\<close>) firing in it would have \<open>lastFireTime = 0\<close> and fire again in the frame at
  time 16.
\<close>

lemma turret_refires_after_time_zero:
  "map type (entitiesRef (snd (gameLoop 0 (\<lambda>_. False) turretWorld)))
     = [ENEMY, PLAYER, PROJECTILE]
   \<and> map lastFireTime (entitiesRef (snd (gameLoop 0 (\<lambda>_. False) turretWorld)))
     = [Some 0, None, None]
   \<and> map type (entitiesRef (snd (gameLoop 16 (\<lambda>_. False)
                                  (snd (gameLoop 0 (\<lambda>_. False) turretWorld)))))
     = [ENEMY, PLAYER, PROJECTILE, PROJECTILE]
   \<and> map idE (entitiesRef (snd (gameLoop 16 (\<lambda>_. False)
                                  (snd (gameLoop 0 (\<lambda>_. False) turretWorld)))))
     = [Named ''turret_1'', Named ''player_1'', Proj (Named ''turret_1'') 0,
        Proj (Named ''turret_1'') 16]"
  by (simp add: model_defs sample_defs turret_defs upt_rec)

section \<open>Patrol behaviour\<close>

lemma setVelocity_heap:
  "setVelocity ent v s = (ent', s') \<Longrightarrow> heap s' (velocity ent') = v"
  by (auto simp: setVelocity_def alloc_def)

text \<open>
  C4 (as amended): for a non-static Patrol entity with path \<open>P = patrolEnd - patrolStart\<close>,
  \<open>|P| > 0\<close>, and \<open>speed = patrolSpeed\<close> when that is set and non-zero, 100 otherwise
  (\<open>ent.patrolSpeed || 100\<close>): the behaviour step sets the velocity to \<open>unit(P) * speed\<close> when
  the velocity is exactly zero; else to \<open>-unit(P) * speed\<close> when \<open>velocity \<cdot> P \<ge> 0\<close> and the
  progress \<open>t \<ge> 1\<close>; else to \<open>unit(P) * speed\<close> when \<open>velocity \<cdot> P < 0\<close> and \<open>t \<le> 0\<close>; and
  otherwise leaves it unchanged.  When \<open>|P| = 0\<close> the step changes nothing.
\<close>

theorem patrolLogic_law:
  assumes "behavior ent = Some PATROL" and "\<not> isStatic ent"
    and "patrolStart ent = Some pStart" and "patrolEnd ent = Some pEnd"
    and "px = x pEnd - x pStart" and "py = y pEnd - y pStart"
    and "len = sqrt (px\<^sup>2 + py\<^sup>2)"
    and "t = ((x (heap s (pos ent)) - x pStart) * px
              + (y (heap s (pos ent)) - y pStart) * py) / (len * len)"
    and "vdot = x (heap s (velocity ent)) * px + y (heap s (velocity ent)) * py"
    and "speed = orElse (patrolSpeed ent) 100"
    and "patrolLogic ent s = (ent', s')"
  shows "(len > 0 \<longrightarrow>
           heap s' (velocity ent') =
             (if x (heap s (velocity ent)) = 0 \<and> y (heap s (velocity ent)) = 0
                then \<lparr>x = (px / len) * speed, y = (py / len) * speed\<rparr>
              else if vdot \<ge> 0 \<and> t \<ge> 1
                then \<lparr>x = - (px / len) * speed, y = - (py / len) * speed\<rparr>
              else if vdot < 0 \<and> t \<le> 0
                then \<lparr>x = (px / len) * speed, y = (py / len) * speed\<rparr>
              else heap s (velocity ent)))
       \<and> (len = 0 \<longrightarrow> ent' = ent \<and> s' = s)"
proof (intro conjI impI)
  assume pos: "len > 0"
  from assms pos show "heap s' (velocity ent') =
             (if x (heap s (velocity ent)) = 0 \<and> y (heap s (velocity ent)) = 0
                then \<lparr>x = (px / len) * speed, y = (py / len) * speed\<rparr>
              else if vdot \<ge> 0 \<and> t \<ge> 1
                then \<lparr>x = - (px / len) * speed, y = - (py / len) * speed\<rparr>
              else if vdot < 0 \<and> t \<le> 0
                then \<lparr>x = (px / len) * speed, y = (py / len) * speed\<rparr>
              else heap s (velocity ent))"
    by (auto simp: patrolLogic_def Let_def dest!: setVelocity_heap split: if_splits)
next
  assume "len = 0"
  with assms show "ent' = ent" "s' = s"
    by (auto simp: patrolLogic_def Let_def)
qed

theorem patrolLogic_law_witness:
  "heap (snd (patrolLogic (patroller 0 1 (Some 0))
            (simOf [\<lparr>x = 50, y = 0\<rparr>, \<lparr>x = 0, y = 0\<rparr>] [] None)))
     (velocity (fst (patrolLogic (patroller 0 1 (Some 0))
            (simOf [\<lparr>x = 50, y = 0\<rparr>, \<lparr>x = 0, y = 0\<rparr>] [] None))))
   = \<lparr>x = 100, y = 0\<rparr>"
  using patrolLogic_law [of "patroller 0 1 (Some 0)" "\<lparr>x = 0, y = 0\<rparr>" "\<lparr>x = 100, y = 0\<rparr>"
      100 0 100 "1 / 2" "simOf [\<lparr>x = 50, y = 0\<rparr>, \<lparr>x = 0, y = 0\<rparr>] [] None" 0 100
      "fst (patrolLogic (patroller 0 1 (Some 0))
            (simOf [\<lparr>x = 50, y = 0\<rparr>, \<lparr>x = 0, y = 0\<rparr>] [] None))"
      "snd (patrolLogic (patroller 0 1 (Some 0))
            (simOf [\<lparr>x = 50, y = 0\<rparr>, \<lparr>x = 0, y = 0\<rparr>] [] None))"]
  by (simp add: patroller_def entityAt_def simOf_def heapOf_def orElse_def)

text \<open>
  With \<open>patrolSpeed = 0\<close> the first activation does not give \<open>unit(P) * patrolSpeed\<close> (the zero
  vector) as C4 states, but \<open>unit(P) * 100\<close>.
\<close>

theorem patrolLogic_speed_counterexample:
  "patrolSpeed (patroller 0 1 (Some 0)) = Some 0
   \<and> x (heap (snd (patrolLogic (patroller 0 1 (Some 0))
            (simOf [\<lparr>x = 50, y = 0\<rparr>, \<lparr>x = 0, y = 0\<rparr>] [] None)))
        (velocity (fst (patrolLogic (patroller 0 1 (Some 0))
            (simOf [\<lparr>x = 50, y = 0\<rparr>, \<lparr>x = 0, y = 0\<rparr>] [] None)))))
     \<noteq> (100 / sqrt (100\<^sup>2 + 0\<^sup>2)) * 0"
  by (simp add: patrolLogic_def patroller_def entityAt_def simOf_def heapOf_def orElse_def
      setVelocity_def alloc_def)

section \<open>Invisible entities\<close>

text \<open>
  C5 (as amended): an entity \<open>O\<close> with \<open>isVisible = false\<close> is skipped by the collision loop
  of either axis, whatever the moving entity: the loop body does nothing for it, so each loop
  gives the same result with the invisible entities removed from the list; and a turret does
  not aim at an invisible Player.  (The check that the Player has reached the Exit is not part of this
  statement.)
\<close>

theorem invisible_excluded_from_collision:
  "(\<not> isVisible other \<longrightarrow>
       resolveX rectX other stX = Cont stX \<and> resolveY rectY other stY = Cont stY)
   \<and> forOf (resolveX rectX) (filter isVisible os) stX = forOf (resolveX rectX) os stX
   \<and> forOf (resolveY rectY) (filter isVisible os) stY = forOf (resolveY rectY) os stY
   \<and> (find (\<lambda>e. type e = PLAYER) (currentEntities s) = Some other \<and> \<not> isVisible other
        \<longrightarrow> \<not> fst (turretAim ent s))"
  by (auto simp: forOf_resolveX_filter forOf_resolveY_filter resolveX_def resolveY_def
      turretAim_def Let_def split: prod.splits)

theorem invisible_excluded_from_collision_witness:
  "\<not> isVisible hiddenSpike \<and> isDeadly hiddenSpike
   \<and> checkCollision (heap spikeScene) (runner 2 3) hiddenSpike
   \<and> resolveX (runner 2 3) hiddenSpike (runner 2 3, 50, spikeScene) = Cont (runner 2 3, 50, spikeScene)
   \<and> resolveX (runner 2 3) (hiddenSpike\<lparr>isVisible := True\<rparr>) (runner 2 3, 50, spikeScene)
       = Return Reset (playSfx SfxDie spikeScene)"
  using invisible_excluded_from_collision
    [of hiddenSpike "runner 2 3" "(runner 2 3, 50, spikeScene)" "runner 2 3"
        "(runner 2 3, 50, False, spikeScene)" "[]" spikeScene hiddenSpike]
  by (simp add: resolveX_def checkCollision_def sample_defs hidden_defs PLAYER_SIZE_def)

text \<open>
  C5 as stated fails for the Exit: the exit check calls \<open>checkCollision(ent, exit)\<close> without
  reading \<open>exit.isVisible\<close>, and a Player overlapping an invisible Exit completes the level.
\<close>

theorem invisible_exit_counterexample:
  "type (entitiesRef hiddenExitWorld ! 0) = EXIT
   \<and> \<not> isVisible (entitiesRef hiddenExitWorld ! 0)
   \<and> fst (gameLoop 16 (\<lambda>_. False) hiddenExitWorld) = LevelComplete"
  by (simp add: model_defs sample_defs hidden_defs upt_rec)

section \<open>Player control\<close>

lemma applyForces_x: "x (heap (applyForces f ent s) a) = x (heap s a)"
  by (simp add: applyForces_def Let_def)

lemma applyForces_targetXRef: "targetXRef (applyForces f ent s) = targetXRef s"
  by (simp add: applyForces_def Let_def updY_def)

lemma playerControl_closed_form:
  assumes "type ent = PLAYER"
  shows "x (heap (playerControl f ent s) (velocity ent)) =
           (if keys f ''ArrowRight'' \<or> keys f ''KeyD'' \<or> keys f ''ArrowLeft'' \<or> keys f ''KeyA''
            then (x (heap s (velocity ent))
                  + (if keys f ''ArrowRight'' \<or> keys f ''KeyD'' then 300 * deltaTime f else 0)
                  - (if keys f ''ArrowLeft'' \<or> keys f ''KeyA'' then 300 * deltaTime f else 0))
                 * friction (phys f)
            else case targetXRef s of
                   Some targetX \<Rightarrow>
                     if \<bar>targetX - (x (heap s (pos ent)) + x (sizeE ent) / 2)\<bar> < 5 then 0
                     else sgn (targetX - (x (heap s (pos ent)) + x (sizeE ent) / 2)) * 200
                 | None \<Rightarrow> x (heap s (velocity ent)) * friction (phys f))
       \<and> targetXRef (playerControl f ent s) =
           (if keys f ''ArrowRight'' \<or> keys f ''KeyD'' \<or> keys f ''ArrowLeft'' \<or> keys f ''KeyA''
            then None
            else case targetXRef s of
                   Some targetX \<Rightarrow>
                     if \<bar>targetX - (x (heap s (pos ent)) + x (sizeE ent) / 2)\<bar> < 5 then None
                     else Some targetX
                 | None \<Rightarrow> None)"
  using assms by (auto simp: playerControl_def Let_def split: option.splits)

text \<open>
  C6 (as amended): for a Player that is not static, within one frame step: the step of the
  Player entity (\<open>processEntity\<close>) is the collision resolution (\<open>resolveEntity\<close>) run from the state
  \<open>sc\<close> that gravity and the Player Control block leave, and in \<open>sc\<close>: if a horizontal key is held,
  \<open>velocity.x\<close> has received \<open>+300 * deltaTime\<close> (right) and \<open>-300 * deltaTime\<close> (left) per held
  direction, the pending click-target is cleared, and \<open>velocity.x\<close> has then been multiplied by
  friction; else if a click-target exists, then within 5 units of the player's centre the target
  is cleared and \<open>velocity.x\<close> is 0, otherwise \<open>velocity.x\<close> is \<open>sign(diff) * 200\<close> with no friction
  and the target is kept; else \<open>velocity.x\<close> is multiplied by friction only.  \<open>ent\<close> and \<open>s2\<close> are
  the entity copy and the state after the AI logic; for a Player without patrol or turret
  behaviour they are the entity and the state themselves (last conjunct).
\<close>

theorem player_control_in_step:
  assumes "type (currentEntities s ! i) = PLAYER" and "\<not> isStatic (currentEntities s ! i)"
    and "patrolLogic (currentEntities s ! i) s = (ent1, s1)"
    and "turretLogic f ent1 s1 = (ent, s2)"
    and "sc = playerControl f ent (applyForces f ent s2)"
  shows "processEntity f i s = resolveEntity f i ent sc
       \<and> x (heap sc (velocity ent)) =
           (if keys f ''ArrowRight'' \<or> keys f ''KeyD'' \<or> keys f ''ArrowLeft'' \<or> keys f ''KeyA''
            then (x (heap s2 (velocity ent))
                  + (if keys f ''ArrowRight'' \<or> keys f ''KeyD'' then 300 * deltaTime f else 0)
                  - (if keys f ''ArrowLeft'' \<or> keys f ''KeyA'' then 300 * deltaTime f else 0))
                 * friction (phys f)
            else case targetXRef s2 of
                   Some targetX \<Rightarrow>
                     if \<bar>targetX - (x (heap s2 (pos ent)) + x (sizeE ent) / 2)\<bar> < 5 then 0
                     else sgn (targetX - (x (heap s2 (pos ent)) + x (sizeE ent) / 2)) * 200
                 | None \<Rightarrow> x (heap s2 (velocity ent)) * friction (phys f))
       \<and> targetXRef sc =
           (if keys f ''ArrowRight'' \<or> keys f ''KeyD'' \<or> keys f ''ArrowLeft'' \<or> keys f ''KeyA''
            then None
            else case targetXRef s2 of
                   Some targetX \<Rightarrow>
                     if \<bar>targetX - (x (heap s2 (pos ent)) + x (sizeE ent) / 2)\<bar> < 5 then None
                     else Some targetX
                 | None \<Rightarrow> None)
       \<and> (behavior (currentEntities s ! i) \<noteq> Some PATROL
            \<and> behavior (currentEntities s ! i) \<noteq> Some TURRET
            \<longrightarrow> ent = currentEntities s ! i \<and> s2 = s)"
proof -
  let ?E = "currentEntities s ! i"
  from patrolLogic_cases [OF assms(3)] assms(1,2)
  have e1: "type ent1 = PLAYER \<and> \<not> isStatic ent1" by auto
  from turretLogic_cases [OF assms(4)] e1
  have e2: "type ent = PLAYER" "\<not> isStatic ent" by auto
  from assms(3,4) e2 have step: "processEntity f i s = resolveEntity f i ent sc"
    by (simp add: processEntity_def integrate_def assms(5))
  have idle: "ent = ?E \<and> s2 = s"
    if "behavior ?E \<noteq> Some PATROL \<and> behavior ?E \<noteq> Some TURRET"
  proof -
    from that assms(3) have "ent1 = ?E \<and> s1 = s"
      by (auto simp: patrolLogic_def split: option.splits)
    with that assms(4) show ?thesis by (auto simp: turretLogic_def)
  qed
  from playerControl_closed_form [OF e2(1), of f "applyForces f ent s2"] step idle
  show ?thesis
    by (simp only: assms(5) applyForces_x applyForces_targetXRef) simp
qed

theorem player_control_in_step_witness:
  "type (runner 0 1) = PLAYER \<and> \<not> isStatic (runner 0 1)
   \<and> fst (gameLoop 16 (\<lambda>k. k = ''KeyD'') (runnerWorld (runner 0 1))) = Committed
   \<and> x (heap (snd (gameLoop 16 (\<lambda>k. k = ''KeyD'') (runnerWorld (runner 0 1)))) 1) = 2227 / 25
   \<and> targetXRef (snd (gameLoop 16 (\<lambda>k. k = ''KeyD'') (runnerWorld (runner 0 1)))) = None
   \<and> x (heap (snd (gameLoop 16 (\<lambda>_. False) (runnerWorld (runner 0 1)))) 1) = 200
   \<and> targetXRef (snd (gameLoop 16 (\<lambda>_. False) (runnerWorld (runner 0 1)))) = Some 700"
  using player_control_in_step
    [of "enter (runnerWorld (runner 0 1))" 0 "runner 0 1" "enter (runnerWorld (runner 0 1))"
        "frameOf 16 (\<lambda>k. k = ''KeyD'') (runnerWorld (runner 0 1))" "runner 0 1"
        "enter (runnerWorld (runner 0 1))"
        "playerControl (frameOf 16 (\<lambda>k. k = ''KeyD'') (runnerWorld (runner 0 1))) (runner 0 1)
           (applyForces (frameOf 16 (\<lambda>k. k = ''KeyD'') (runnerWorld (runner 0 1))) (runner 0 1)
              (enter (runnerWorld (runner 0 1))))"]
  by (simp add: model_defs sample_defs runner_defs upt_rec)

text \<open>
  C6 as stated fails for a static Player: \<open>if (ent.isStatic) { currentEntities[i] = ent; continue; }\<close>
  comes before the Player Control block, so with a key held the frame leaves \<open>velocity.x\<close> (100)
  and the click-target (700) as they were.
\<close>

theorem static_player_counterexample:
  "type (entityAt (Named ''player_1'') PLAYER 0 PLAYER_SIZE 1) = PLAYER
   \<and> isStatic (entityAt (Named ''player_1'') PLAYER 0 PLAYER_SIZE 1)
   \<and> x (heap (runnerWorld (entityAt (Named ''player_1'') PLAYER 0 PLAYER_SIZE 1)) 1) = 100
   \<and> fst (gameLoop 16 (\<lambda>k. k = ''KeyD'')
            (runnerWorld (entityAt (Named ''player_1'') PLAYER 0 PLAYER_SIZE 1))) = Committed
   \<and> x (heap (snd (gameLoop 16 (\<lambda>k. k = ''KeyD'')
            (runnerWorld (entityAt (Named ''player_1'') PLAYER 0 PLAYER_SIZE 1)))) 1) = 100
   \<and> targetXRef (snd (gameLoop 16 (\<lambda>k. k = ''KeyD'')
            (runnerWorld (entityAt (Named ''player_1'') PLAYER 0 PLAYER_SIZE 1)))) = Some 700"
  by (simp add: model_defs sample_defs runner_defs upt_rec)

section \<open>The per-frame time step\<close>

text \<open>
  C7 (as amended): for every raw delta time \<open>t - lastTimeRef\<close> (in ms) and every time scale the
  time step of the frame is \<open>min (raw / 1000) 0.05 * timeScale\<close>; for every time scale
  \<open>\<ge> 0\<close> it is at most \<open>0.05 * timeScale\<close>.
\<close>

theorem deltaTime_clamp:
  "deltaTime (frameOf t ks w) = min ((t - lastTimeRef w) / 1000) 0.05 * timeScale (physicsRef w)
   \<and> (0 \<le> timeScale (physicsRef w) \<longrightarrow>
        deltaTime (frameOf t ks w) \<le> 0.05 * timeScale (physicsRef w))"
proof -
  have eq: "deltaTime (frameOf t ks w)
      = min ((t - lastTimeRef w) / 1000) 0.05 * timeScale (physicsRef w)"
    by (simp add: frameOf_def frameDeltaTime_def)
  have "min ((t - lastTimeRef w) / 1000) 0.05 * timeScale (physicsRef w)
      \<le> 0.05 * timeScale (physicsRef w)" if "0 \<le> timeScale (physicsRef w)"
    using that by (intro mult_right_mono) simp_all
  with eq show ?thesis by simp
qed

theorem deltaTime_clamp_witness:
  "deltaTime (frameOf 1000 (\<lambda>_. False) (worldOf [] [] DEFAULT_PHYSICS emptyLevel)) = 0.05"
  using deltaTime_clamp [of 1000 "\<lambda>_. False" "worldOf [] [] DEFAULT_PHYSICS emptyLevel"]
  by (simp add: worldOf_def DEFAULT_PHYSICS_def)

text \<open>
  For a negative time scale the bound of C7 as stated fails: with \<open>timeScale = -1\<close> and a raw
  delta of 10 ms the step is \<open>-0.01\<close>, which exceeds \<open>0.05 * timeScale = -0.05\<close>.
\<close>

theorem deltaTime_clamp_counterexample:
  "\<not> deltaTime (frameOf 10 (\<lambda>_. False)
         (worldOf [] [] \<lparr>gravity = 0.5, friction = 0.85, timeScale = - 1\<rparr> emptyLevel))
      \<le> 0.05 * timeScale (physicsRef
         (worldOf [] [] \<lparr>gravity = 0.5, friction = 0.85, timeScale = - 1\<rparr> emptyLevel))"
  by (simp add: frameOf_def frameDeltaTime_def worldOf_def)

section \<open>checkCollision is the open-interval overlap test\<close>

text \<open>
  C8: \<open>checkCollision(a, b)\<close> is true iff the two rectangles overlap strictly on both axes;
  rectangles that only touch along an edge (or at a corner) do not collide.
\<close>

theorem checkCollision_strict:
  "(checkCollision h a b \<longleftrightarrow>
      x (h (pos a)) < x (h (pos b)) + x (sizeE b) \<and> x (h (pos a)) + x (sizeE a) > x (h (pos b)) \<and>
      y (h (pos a)) < y (h (pos b)) + y (sizeE b) \<and> y (h (pos a)) + y (sizeE a) > y (h (pos b)))
   \<and> (x (h (pos a)) + x (sizeE a) = x (h (pos b)) \<longrightarrow> \<not> checkCollision h a b)
   \<and> (x (h (pos a)) = x (h (pos b)) + x (sizeE b) \<longrightarrow> \<not> checkCollision h a b)
   \<and> (y (h (pos a)) + y (sizeE a) = y (h (pos b)) \<longrightarrow> \<not> checkCollision h a b)
   \<and> (y (h (pos a)) = y (h (pos b)) + y (sizeE b) \<longrightarrow> \<not> checkCollision h a b)"
  by (auto simp: checkCollision_def)

theorem checkCollision_strict_witness:
  "\<not> checkCollision (heapOf [\<lparr>x = 0, y = 0\<rparr>, \<lparr>x = 10, y = 0\<rparr>, \<lparr>x = 9, y = 9\<rparr>])
       (entityAt (Named ''a'') PLAYER 0 \<lparr>x = 10, y = 10\<rparr> 0)
       (entityAt (Named ''b'') WALL 1 \<lparr>x = 10, y = 10\<rparr> 1)
   \<and> checkCollision (heapOf [\<lparr>x = 0, y = 0\<rparr>, \<lparr>x = 10, y = 0\<rparr>, \<lparr>x = 9, y = 9\<rparr>])
       (entityAt (Named ''a'') PLAYER 0 \<lparr>x = 10, y = 10\<rparr> 0)
       (entityAt (Named ''c'') WALL 2 \<lparr>x = 10, y = 10\<rparr> 2)"
  using checkCollision_strict
    [of "heapOf [\<lparr>x = 0, y = 0\<rparr>, \<lparr>x = 10, y = 0\<rparr>, \<lparr>x = 9, y = 9\<rparr>]"
        "entityAt (Named ''a'') PLAYER 0 \<lparr>x = 10, y = 10\<rparr> 0"
        "entityAt (Named ''b'') WALL 1 \<lparr>x = 10, y = 10\<rparr> 1"]
    checkCollision_strict
    [of "heapOf [\<lparr>x = 0, y = 0\<rparr>, \<lparr>x = 10, y = 0\<rparr>, \<lparr>x = 9, y = 9\<rparr>]"
        "entityAt (Named ''a'') PLAYER 0 \<lparr>x = 10, y = 10\<rparr> 0"
        "entityAt (Named ''c'') WALL 2 \<lparr>x = 10, y = 10\<rparr> 2"]
  by (simp add: heapOf_def entityAt_def)

section \<open>Level load\<close>

text \<open>
  C9 (as amended): level load does not validate and never fails.  For every blueprint,
  \<open>setupLevel\<close> builds a World State with one entity per template, each with the template's
  type and size as they are (also a size \<open>\<le> 0\<close>), followed by the Player at the blueprint's
  start position, with the blueprint's physics.  (A blueprint without a start position is
  excluded by the type \<open>LevelData\<close>.)
\<close>

theorem setupLevel_never_fails:
  "map sizeE (entitiesRef (setupLevel level w)) = map sizeE (entities level) @ [PLAYER_SIZE]
   \<and> map type (entitiesRef (setupLevel level w)) = map type (entities level) @ [PLAYER]
   \<and> heap (setupLevel level w) (pos (last (entitiesRef (setupLevel level w)))) = startPos level
   \<and> physicsRef (setupLevel level w) = physics level"
proof -
  obtain p w1 where a1: "alloc (startPos level) w = (p, w1)" by (cases "alloc (startPos level) w") auto
  obtain v w2 where a2: "alloc \<lparr>x = 0, y = 0\<rparr> w1 = (v, w2)" by (cases "alloc \<lparr>x = 0, y = 0\<rparr> w1") auto
  obtain r w3 where m: "mapEntities (entities level) w2 = (r, w3)"
    by (cases "mapEntities (entities level) w2") auto
  have s: "setupLevel level w =
      w3\<lparr>entitiesRef := r @ [newPlayer p v], physicsRef := physics level, targetXRef := None\<rparr>"
    by (simp add: setupLevel_def a1 a2 m)
  from a1 a2 have "p < nextRef w2" "heap w2 p = startPos level" by (auto simp: alloc_def)
  with mapEntities_fields [OF m] have "heap w3 p = startPos level" by simp
  with mapEntities_fields [OF m] s show ?thesis by (simp add: newPlayer_def)
qed

theorem setupLevel_never_fails_witness:
  "map sizeE (entitiesRef (setupLevel zeroSizeLevel zeroSizeWorld)) = [\<lparr>x = 0, y = 0\<rparr>, \<lparr>x = 32, y = 32\<rparr>]"
  using setupLevel_never_fails [of zeroSizeLevel zeroSizeWorld]
  by (simp add: level_defs PLAYER_SIZE_def)

text \<open>
  C9 as stated fails: a blueprint with a wall of size \<open>(0, 0)\<close> loads without an error, and
  the frame loop runs over the resulting state and commits a frame.
\<close>

theorem setupLevel_accepts_zero_size:
  "map sizeE (entities zeroSizeLevel) = [\<lparr>x = 0, y = 0\<rparr>]
   \<and> map sizeE (entitiesRef (setupLevel zeroSizeLevel zeroSizeWorld))
       = [\<lparr>x = 0, y = 0\<rparr>, \<lparr>x = 32, y = 32\<rparr>]
   \<and> fst (gameLoop 16 (\<lambda>_. False) (setupLevel zeroSizeLevel zeroSizeWorld)) = Committed"
  by (simp add: model_defs sample_defs level_defs upt_rec)

section \<open>Projectiles spawned during a frame\<close>

lemma processEntity_spawned:
  assumes pe: "processEntity f i s = Cont s1"
  shows "\<forall>p. p \<in> set (drop (length (newProjectiles s)) (newProjectiles s1)) \<longrightarrow>
           type p = PROJECTILE \<and> \<not> isStatic p \<and> \<not> isSolid p \<and> isVisible p \<and> isDeadly p"
proof -
  let ?E = "currentEntities s ! i"
  obtain ent1 sA where pl: "patrolLogic ?E s = (ent1, sA)" by (cases "patrolLogic ?E s") auto
  obtain ent2 s2 where tl: "turretLogic f ent1 sA = (ent2, s2)"
    by (cases "turretLogic f ent1 sA") auto
  from pe pl tl have ig: "integrate f i ent2 s2 = Cont s1" by (simp add: processEntity_def)
  from integrate_Cont [OF ig] have np: "newProjectiles s1 = newProjectiles s2" by auto
  from patrolLogic_cases [OF pl] have p1: "newProjectiles sA = newProjectiles s" by auto
  from turretLogic_cases [OF tl] p1 np show ?thesis
    by (auto simp: newProjectile_def)
qed

lemma spawned_untouched:
  assumes al: "allocated s" and ap: "apart s" and i: "i < length (currentEntities s)"
    and ixs: "\<forall>k. k \<in> set ixs \<longrightarrow> k < length (currentEntities s)"
    and pe: "processEntity f i s = Cont s1" and rest: "physicsSubstep f ixs s1 = Cont s'"
  shows "\<exists>ps qs.
           newProjectiles s1 = newProjectiles s @ ps \<and> newProjectiles s' = newProjectiles s1 @ qs
           \<and> (\<forall>p. p \<in> set ps \<longrightarrow>
                 type p = PROJECTILE
                 \<and> heap s' (velocity p) = fst (aimOf i s) \<and> heap s' (pos p) = snd (aimOf i s)
                 \<and> pos p \<notin> set (map pos (currentEntities s')))
           \<and> map pos (currentEntities s') = map pos (currentEntities s)
           \<and> map idE (currentEntities s') = map idE (currentEntities s)"
proof -
  let ?n = "length (currentEntities s)"
  from stepRel_processEntity [OF pe i] have r1: "stepRel {i} s s1" .
  from r1 obtain ps where ps: "newProjectiles s1 = newProjectiles s @ ps"
    and psT: "\<forall>p. p \<in> set ps \<longrightarrow> type p = PROJECTILE"
    unfolding stepRel_def by blast
  from processEntity_inv [OF pe i al ap] have inv1: "allocated s1" "apart s1" by auto
  from r1 have len1: "length (currentEntities s1) = ?n" by (simp add: stepRel_def)
  with ixs have ixs1: "\<forall>k. k \<in> set ixs \<longrightarrow> k < length (currentEntities s1)" by simp
  from stepRel_physicsSubstep [OF rest ixs1] have r2: "stepRel (set ixs) s1 s'" .
  from r2 obtain qs where qs: "newProjectiles s' = newProjectiles s1 @ qs"
    unfolding stepRel_def by blast
  from r2 len1 have len2: "length (currentEntities s') = ?n" by (simp add: stepRel_def)
  have fld: "pos (currentEntities s' ! j) = pos (currentEntities s1 ! j)
           \<and> pos (currentEntities s1 ! j) = pos (currentEntities s ! j)
           \<and> idE (currentEntities s' ! j) = idE (currentEntities s ! j)" if "j < ?n" for j
  proof -
    from r1 that have "pos (currentEntities s1 ! j) = pos (currentEntities s ! j)"
      "idE (currentEntities s1 ! j) = idE (currentEntities s ! j)"
      unfolding stepRel_def by auto
    moreover from r2 that len1 have "pos (currentEntities s' ! j) = pos (currentEntities s1 ! j)"
      "idE (currentEntities s' ! j) = idE (currentEntities s1 ! j)"
      unfolding stepRel_def by auto
    ultimately show ?thesis by simp
  qed
  have mp: "map pos (currentEntities s') = map pos (currentEntities s)"
    by (rule nth_equalityI) (simp_all add: len2 fld)
  have mi: "map idE (currentEntities s') = map idE (currentEntities s)"
    by (rule nth_equalityI) (simp_all add: len2 fld)
  from ps have dr: "drop (length (newProjectiles s)) (newProjectiles s1) = ps" by simp
  have each: "type p = PROJECTILE
        \<and> heap s' (velocity p) = fst (aimOf i s) \<and> heap s' (pos p) = snd (aimOf i s)
        \<and> pos p \<notin> set (map pos (currentEntities s'))" if p: "p \<in> set ps" for p
  proof -
    from p ps have mem: "p \<in> set (newProjectiles s1)" by simp
    from processEntity_spawn [OF pe i al] dr p
    have v1: "heap s1 (velocity p) = fst (aimOf i s)" "heap s1 (pos p) = snd (aimOf i s)"
      by auto
    from inv1(1) mem have lt: "pos p < nextRef s1" "velocity p < nextRef s1"
      by (auto simp: allocated_def)
    have sep: "pos p \<noteq> pos (currentEntities s1 ! k) \<and> pos p \<noteq> velocity (currentEntities s1 ! k)
        \<and> velocity p \<noteq> pos (currentEntities s1 ! k)
        \<and> velocity p \<noteq> velocity (currentEntities s1 ! k)"
      if "k < length (currentEntities s1)" for k
    proof -
      from that have "currentEntities s1 ! k \<in> set (currentEntities s1)" by simp
      with apart_pending [OF inv1(2) mem] show ?thesis by blast
    qed
    from r2 lt(1) sep have "heap s' (pos p) = heap s1 (pos p)"
      unfolding stepRel_def by blast
    moreover from r2 lt(2) sep have "heap s' (velocity p) = heap s1 (velocity p)"
      unfolding stepRel_def by blast
    moreover have "pos p \<notin> set (map pos (currentEntities s'))"
    proof
      assume "pos p \<in> set (map pos (currentEntities s'))"
      then obtain j where j: "j < ?n" "pos p = pos (currentEntities s' ! j)"
        using len2 by (auto simp: in_set_conv_nth)
      with fld [OF j(1)] sep [of j] len1 show False by simp
    qed
    ultimately show ?thesis using v1 psT p by simp
  qed
  from ps qs each mp mi show ?thesis by blast
qed

text \<open>
  C10: in the frame \<open>gameLoop t ks w\<close> let \<open>s\<close> be the loop state when entity \<open>i\<close> is reached and
  \<open>s1\<close> the state after its update, in which it pushed the projectiles \<open>ps\<close> (none or one) onto
  \<open>newProjectiles\<close>.  Each of them is a visible, deadly, non-static \<open>PROJECTILE\<close>.  What waits in
  \<open>newProjectiles\<close> has no influence on the update of an entity (\<open>integrate\<close>) or on the rest of
  the loop: run with \<open>newProjectiles\<close> emptied, the rest of the loop takes the same course
  (it continues, or returns by the same death or exit) and leaves the same state, the waiting
  projectiles carried along untouched; so no collision test involves them and they cannot kill
  the Player in this frame.  If the rest of the loop returns early, the frame is a level reset
  or a level completion.  If it runs to its end (state \<open>s'\<close>), the frame commits the processed
  entities followed by \<open>newProjectiles\<close>, among them \<open>ps\<close>; the processed list has the positions
  and ids of the frame's list, none of them a projectile's position object; each projectile
  still has the velocity and the position it was created with (\<open>aimOf\<close>); and it is in the list
  that the next frame iterates and tests collisions against.
\<close>

theorem projectile_deferred:
  assumes al: "allocated (enter w)" and ap: "apart (enter w)"
    and run: "(gameState w = PLAYING \<or> (gameState w = EDITOR \<and> isEditorTesting w)) \<and> \<not> isPaused w"
    and i: "i < length (entitiesRef w)"
    and reach: "physicsSubstep (frameOf t ks w) [0..<i] (enter w) = Cont s"
    and pe: "processEntity (frameOf t ks w) i s = Cont s1"
  shows "\<exists>ps. newProjectiles s1 = newProjectiles s @ ps
     \<and> (\<forall>p. p \<in> set ps \<longrightarrow>
           type p = PROJECTILE \<and> \<not> isStatic p \<and> isVisible p \<and> isDeadly p)
     \<and> (\<forall>j ent z qs.
           integrate (frameOf t ks w) j ent (pending qs z)
             = onFlow (pending qs) (pending qs) (integrate (frameOf t ks w) j ent z))
     \<and> physicsSubstep (frameOf t ks w) [Suc i..<length (entitiesRef w)] s1
         = onFlow (pending (newProjectiles s1)) (pending (newProjectiles s1))
             (physicsSubstep (frameOf t ks w) [Suc i..<length (entitiesRef w)]
                (s1\<lparr>newProjectiles := []\<rparr>))
     \<and> (\<forall>out r. physicsSubstep (frameOf t ks w) [Suc i..<length (entitiesRef w)] s1
                     = Return out r
           \<longrightarrow> fst (gameLoop t ks w) = (if out = Reset then LevelReset else LevelComplete))
     \<and> (\<forall>s'. physicsSubstep (frameOf t ks w) [Suc i..<length (entitiesRef w)] s1 = Cont s'
           \<longrightarrow> gameLoop t ks w =
                 (Committed,
                  (leave s' (w\<lparr>lastTimeRef := t\<rparr>))
                    \<lparr>entitiesRef :=
                       filter (\<lambda>e. isVisible e \<or> (type e \<noteq> PROJECTILE \<and> \<not> isVisible e))
                         (currentEntities s') @ newProjectiles s'\<rparr>)
               \<and> (\<exists>qs. newProjectiles s' = newProjectiles s @ ps @ qs)
               \<and> map pos (currentEntities s') = map pos (entitiesRef w)
               \<and> map idE (currentEntities s') = map idE (entitiesRef w)
               \<and> (\<forall>p. p \<in> set ps \<longrightarrow>
                     heap s' (velocity p) = fst (aimOf i s) \<and> heap s' (pos p) = snd (aimOf i s)
                     \<and> pos p \<notin> set (map pos (currentEntities s'))
                     \<and> p \<in> set (currentEntities (enter (snd (gameLoop t ks w))))))"
proof -
  let ?F = "frameOf t ks w"
  let ?n = "length (entitiesRef w)"
  let ?rest = "[Suc i..<?n]"
  have b0: "\<forall>k. k \<in> set [0..<i] \<longrightarrow> k < length (currentEntities (enter w))"
    using i by (simp add: enter_def)
  from physicsSubstep_inv [OF reach b0 al ap] have inv: "allocated s" "apart s" by auto
  from stepRel_physicsSubstep [OF reach b0] have r0: "stepRel (set [0..<i]) (enter w) s" .
  then have len: "length (currentEntities s) = ?n"
    by (simp add: stepRel_def enter_def)
  with i have i': "i < length (currentEntities s)" by simp
  have fld0: "pos (currentEntities s ! j) = pos (entitiesRef w ! j)
            \<and> idE (currentEntities s ! j) = idE (entitiesRef w ! j)" if "j < ?n" for j
    using r0 that unfolding stepRel_def by (simp add: enter_def)
  have mp0: "map pos (currentEntities s) = map pos (entitiesRef w)"
    by (rule nth_equalityI) (simp_all add: len fld0)
  have mi0: "map idE (currentEntities s) = map idE (entitiesRef w)"
    by (rule nth_equalityI) (simp_all add: len fld0)
  from stepRel_processEntity [OF pe i'] obtain ps where
    ps: "newProjectiles s1 = newProjectiles s @ ps"
    unfolding stepRel_def by blast
  then have dr: "drop (length (newProjectiles s)) (newProjectiles s1) = ps" by simp
  from processEntity_spawned [OF pe] dr
  have kind: "\<forall>p. p \<in> set ps \<longrightarrow>
      type p = PROJECTILE \<and> \<not> isStatic p \<and> isVisible p \<and> isDeadly p"
    by simp
  have ni: "physicsSubstep ?F ?rest s1
      = onFlow (pending (newProjectiles s1)) (pending (newProjectiles s1))
          (physicsSubstep ?F ?rest (s1\<lparr>newProjectiles := []\<rparr>))"
    using pending_physicsSubstep [of ?F ?rest "newProjectiles s1" "s1\<lparr>newProjectiles := []\<rparr>"]
    by (simp only: pending_all)
  have whole: "physicsSubstep ?F [0..<?n] (enter w) = physicsSubstep ?F ?rest s1"
    by (simp only: upt_around [OF i] physicsSubstep_append reach Flow.case
        physicsSubstep_single pe)
  have ret: "fst (gameLoop t ks w) = (if out = Reset then LevelReset else LevelComplete)"
    if "physicsSubstep ?F ?rest s1 = Return out r" for out r
    using that whole by (cases out) (simp_all add: gameLoop_running [OF run])
  have cont: "gameLoop t ks w =
                 (Committed,
                  (leave s' (w\<lparr>lastTimeRef := t\<rparr>))
                    \<lparr>entitiesRef :=
                       filter (\<lambda>e. isVisible e \<or> (type e \<noteq> PROJECTILE \<and> \<not> isVisible e))
                         (currentEntities s') @ newProjectiles s'\<rparr>)
               \<and> (\<exists>qs. newProjectiles s' = newProjectiles s @ ps @ qs)
               \<and> map pos (currentEntities s') = map pos (entitiesRef w)
               \<and> map idE (currentEntities s') = map idE (entitiesRef w)
               \<and> (\<forall>p. p \<in> set ps \<longrightarrow>
                     heap s' (velocity p) = fst (aimOf i s) \<and> heap s' (pos p) = snd (aimOf i s)
                     \<and> pos p \<notin> set (map pos (currentEntities s'))
                     \<and> p \<in> set (currentEntities (enter (snd (gameLoop t ks w)))))"
    if rest: "physicsSubstep ?F ?rest s1 = Cont s'" for s'
  proof -
    have ixs: "\<forall>k. k \<in> set ?rest \<longrightarrow> k < length (currentEntities s)" using len by simp
    from spawned_untouched [OF inv i' ixs pe rest] obtain ps' qs where
      a: "newProjectiles s1 = newProjectiles s @ ps'" "newProjectiles s' = newProjectiles s1 @ qs"
      and e: "\<forall>p. p \<in> set ps' \<longrightarrow>
                 type p = PROJECTILE
                 \<and> heap s' (velocity p) = fst (aimOf i s) \<and> heap s' (pos p) = snd (aimOf i s)
                 \<and> pos p \<notin> set (map pos (currentEntities s'))"
      and m: "map pos (currentEntities s') = map pos (currentEntities s)"
        "map idE (currentEntities s') = map idE (currentEntities s)"
      by blast
    from a(1) ps have same: "ps' = ps" by simp
    have gl: "gameLoop t ks w =
                 (Committed,
                  (leave s' (w\<lparr>lastTimeRef := t\<rparr>))
                    \<lparr>entitiesRef :=
                       filter (\<lambda>e. isVisible e \<or> (type e \<noteq> PROJECTILE \<and> \<not> isVisible e))
                         (currentEntities s') @ newProjectiles s'\<rparr>)"
      using whole rest by (simp add: gameLoop_running [OF run] activeEntities_def)
    have mem: "p \<in> set (currentEntities (enter (snd (gameLoop t ks w))))" if "p \<in> set ps" for p
      using that a(2) ps by (simp add: gl enter_def)
    from a(2) ps have "\<exists>qs. newProjectiles s' = newProjectiles s @ ps @ qs" by simp
    with gl e m mem same mp0 mi0 show ?thesis by simp
  qed
  show ?thesis
  proof (rule exI [of _ ps], intro conjI)
    show "newProjectiles s1 = newProjectiles s @ ps" by (rule ps)
    show "\<forall>p. p \<in> set ps \<longrightarrow>
           type p = PROJECTILE \<and> \<not> isStatic p \<and> isVisible p \<and> isDeadly p"
      by (rule kind)
    show "\<forall>j ent z qs.
           integrate ?F j ent (pending qs z)
             = onFlow (pending qs) (pending qs) (integrate ?F j ent z)"
      by (simp add: pending_integrate)
    show "physicsSubstep ?F ?rest s1
         = onFlow (pending (newProjectiles s1)) (pending (newProjectiles s1))
             (physicsSubstep ?F ?rest (s1\<lparr>newProjectiles := []\<rparr>))"
      by (rule ni)
    show "\<forall>out r. physicsSubstep ?F ?rest s1 = Return out r
           \<longrightarrow> fst (gameLoop t ks w) = (if out = Reset then LevelReset else LevelComplete)"
      using ret by blast
    show "\<forall>s'. physicsSubstep ?F ?rest s1 = Cont s'
           \<longrightarrow> gameLoop t ks w =
                 (Committed,
                  (leave s' (w\<lparr>lastTimeRef := t\<rparr>))
                    \<lparr>entitiesRef :=
                       filter (\<lambda>e. isVisible e \<or> (type e \<noteq> PROJECTILE \<and> \<not> isVisible e))
                         (currentEntities s') @ newProjectiles s'\<rparr>)
               \<and> (\<exists>qs. newProjectiles s' = newProjectiles s @ ps @ qs)
               \<and> map pos (currentEntities s') = map pos (entitiesRef w)
               \<and> map idE (currentEntities s') = map idE (entitiesRef w)
               \<and> (\<forall>p. p \<in> set ps \<longrightarrow>
                     heap s' (velocity p) = fst (aimOf i s) \<and> heap s' (pos p) = snd (aimOf i s)
                     \<and> pos p \<notin> set (map pos (currentEntities s'))
                     \<and> p \<in> set (currentEntities (enter (snd (gameLoop t ks w)))))"
      using cont by blast
  qed
qed

theorem projectile_deferred_witness:
  "allocated (enter ambushWorld) \<and> apart (enter ambushWorld)
   \<and> fst (gameLoop 1000 (\<lambda>_. False) ambushWorld) = Committed
   \<and> map (\<lambda>e. (type e, heap (snd (gameLoop 1000 (\<lambda>_. False) ambushWorld)) (pos e)))
        (entitiesRef (snd (gameLoop 1000 (\<lambda>_. False) ambushWorld)))
      = [(ENEMY, \<lparr>x = 100, y = 100\<rparr>), (PLAYER, \<lparr>x = 131, y = 99\<rparr>),
         (PROJECTILE, \<lparr>x = 145, y = 110\<rparr>)]
   \<and> checkCollision (heap (snd (gameLoop 1000 (\<lambda>_. False) ambushWorld)))
        (entitiesRef (snd (gameLoop 1000 (\<lambda>_. False) ambushWorld)) ! 1)
        (entitiesRef (snd (gameLoop 1000 (\<lambda>_. False) ambushWorld)) ! 2)
   \<and> fst (gameLoop 1016 (\<lambda>_. False) (snd (gameLoop 1000 (\<lambda>_. False) ambushWorld)))
       = LevelReset"
proof -
  let ?F = "frameOf 1000 (\<lambda>_. False) ambushWorld"
  from ambush_turret_step obtain s1 s' where
    pe: "processEntity ?F 0 (enter ambushWorld) = Cont s1" and
    rest: "physicsSubstep ?F [Suc 0..<length (entitiesRef ambushWorld)] s1 = Cont s'" and
    one: "length (newProjectiles s1) = 1"
    by blast
  have run: "(gameState ambushWorld = PLAYING
               \<or> (gameState ambushWorld = EDITOR \<and> isEditorTesting ambushWorld))
             \<and> \<not> isPaused ambushWorld"
    by (simp add: sample_defs ambush_defs)
  have i: "0 < length (entitiesRef ambushWorld)" by (simp add: sample_defs ambush_defs)
  have reach: "physicsSubstep ?F [0..<0] (enter ambushWorld) = Cont (enter ambushWorld)"
    by (simp add: physicsSubstep_def)
  from projectile_deferred [OF ambush_allocated ambush_apart run i reach pe]
  obtain ps where
    ps: "newProjectiles s1 = newProjectiles (enter ambushWorld) @ ps" and
    ni: "physicsSubstep ?F [Suc 0..<length (entitiesRef ambushWorld)] s1
         = onFlow (pending (newProjectiles s1)) (pending (newProjectiles s1))
             (physicsSubstep ?F [Suc 0..<length (entitiesRef ambushWorld)]
                (s1\<lparr>newProjectiles := []\<rparr>))" and
    cont: "\<forall>s'. physicsSubstep ?F [Suc 0..<length (entitiesRef ambushWorld)] s1 = Cont s'
           \<longrightarrow> gameLoop 1000 (\<lambda>_. False) ambushWorld =
                 (Committed,
                  (leave s' (ambushWorld\<lparr>lastTimeRef := 1000\<rparr>))
                    \<lparr>entitiesRef :=
                       filter (\<lambda>e. isVisible e \<or> (type e \<noteq> PROJECTILE \<and> \<not> isVisible e))
                         (currentEntities s') @ newProjectiles s'\<rparr>)"
    by blast
  from rest cont have c: "fst (gameLoop 1000 (\<lambda>_. False) ambushWorld) = Committed"
    by auto
  have frames: "map (\<lambda>e. (type e, heap (snd (gameLoop 1000 (\<lambda>_. False) ambushWorld)) (pos e)))
        (entitiesRef (snd (gameLoop 1000 (\<lambda>_. False) ambushWorld)))
      = [(ENEMY, \<lparr>x = 100, y = 100\<rparr>), (PLAYER, \<lparr>x = 131, y = 99\<rparr>),
         (PROJECTILE, \<lparr>x = 145, y = 110\<rparr>)]
   \<and> checkCollision (heap (snd (gameLoop 1000 (\<lambda>_. False) ambushWorld)))
        (entitiesRef (snd (gameLoop 1000 (\<lambda>_. False) ambushWorld)) ! 1)
        (entitiesRef (snd (gameLoop 1000 (\<lambda>_. False) ambushWorld)) ! 2)
   \<and> fst (gameLoop 1016 (\<lambda>_. False) (snd (gameLoop 1000 (\<lambda>_. False) ambushWorld)))
       = LevelReset"
    by (simp add: model_defs sample_defs ambush_defs upt_rec)
  from ambush_allocated ambush_apart c frames show ?thesis by simp
qed

text \<open>
  On whole frames: the turret fires at time 1000 and the committed list ends with the
  projectile at its spawn position; the frame at time 1016 moves it by \<open>300 * 0.016\<close>.
\<close>

lemma turret_frame_spawns:
  "fst (gameLoop 1000 (\<lambda>_. False) (turretWorld\<lparr>lastTimeRef := 984\<rparr>)) = Committed
   \<and> map (\<lambda>e. (type e, heap (snd (gameLoop 1000 (\<lambda>_. False) (turretWorld\<lparr>lastTimeRef := 984\<rparr>))) (pos e)))
        (entitiesRef (snd (gameLoop 1000 (\<lambda>_. False) (turretWorld\<lparr>lastTimeRef := 984\<rparr>))))
      = [(ENEMY, \<lparr>x = 100, y = 100\<rparr>), (PLAYER, \<lparr>x = 199, y = 99\<rparr>),
         (PROJECTILE, \<lparr>x = 145, y = 110\<rparr>)]"
  by (simp add: model_defs sample_defs turret_defs upt_rec)

lemma turret_next_frame_moves:
  "map (\<lambda>e. (type e, heap (snd (gameLoop 1016 (\<lambda>_. False)
                 (snd (gameLoop 1000 (\<lambda>_. False) (turretWorld\<lparr>lastTimeRef := 984\<rparr>))))) (pos e)))
        (entitiesRef (snd (gameLoop 1016 (\<lambda>_. False)
                 (snd (gameLoop 1000 (\<lambda>_. False) (turretWorld\<lparr>lastTimeRef := 984\<rparr>))))))
      = [(ENEMY, \<lparr>x = 100, y = 100\<rparr>), (PLAYER, \<lparr>x = 199, y = 99\<rparr>),
         (PROJECTILE, \<lparr>x = 749 / 5, y = 110\<rparr>)]"
  by (simp add: model_defs sample_defs turret_defs upt_rec)

end
